theory Spec2Isabelle
  imports Complex_Main "HOL-Library.Char_ord" "HOL-Library.List_Lexorder"
begin

section \<open>Data model\<close>

text \<open>
  The fluctuation record \<^verbatim>\<open>Obs\<close> is imported by \<^verbatim>\<open>linalg.py\<close> from a module that is
  not part of the sources at hand; \<^verbatim>\<open>derived_array\<close> reads the attributes \<^verbatim>\<open>names\<close>, \<^verbatim>\<open>shape\<close>,
  \<^verbatim>\<open>deltas\<close>, \<^verbatim>\<open>r_values\<close> and \<^verbatim>\<open>value\<close> of a record, and these are the fields kept here.
  The three dictionaries are maps from ensemble names. Python floats are taken as real
  numbers, so arithmetic is exact.
\<close>

record Obs =
  names :: "string list"
  shape :: "string \<rightharpoonup> nat"
  deltas :: "string \<rightharpoonup> real list"
  r_values :: "string \<rightharpoonup> real"
  obs_value :: real

text \<open>
  An entry of the input collection as the \<^verbatim>\<open>isinstance\<close> tests of \<^verbatim>\<open>derived_array\<close> see it:
  a plain \<^verbatim>\<open>int\<close> or \<^verbatim>\<open>float\<close>, an \<^verbatim>\<open>Obs\<close>, or an object that is neither.
\<close>

datatype entry = Num real | IsObs Obs | Other

text \<open>
  A numpy array: its shape and its elements in row-major order (what \<^verbatim>\<open>ravel\<close> gives).
\<close>

record 'a ndarray =
  dims :: "nat list"
  flat :: "'a list"

text \<open>
  The exceptions of Python and numpy that the code can raise, the three
  \<^verbatim>\<open>Exception(...)\<close> that \<^verbatim>\<open>derived_array\<close> raises itself, the one that the matrix
  adapters raise for a list that is not a square, and the shape mismatch of the
  specification.
\<close>

datatype error =
    IndexError
  | KeyError string
  | UnboundLocalError
  | AttributeError
  | TypeError
  | ValueError
  | ShapesDoNotMatch string
  | ManualDerivativeShape
  | MultiModeNotSupported
  | InputNotSquare
  | LinAlgError
  | ShapeMismatch

text \<open>
  The keyword arguments that \<^verbatim>\<open>derived_array\<close> inspects: \<^verbatim>\<open>man_grad\<close> is \<open>Some\<close> array when
  the key is present, and \<^verbatim>\<open>num_grad\<close> holds when \<^verbatim>\<open>kwargs.get('num_grad') is True\<close>.
\<close>

record kwargs =
  man_grad :: "real ndarray option"
  num_grad :: bool

text \<open>
  How the caller hands over the collection. \<^verbatim>\<open>np.asarray\<close> builds a new array from a
  (nested) Python list, and returns a numpy array of objects as it is; \<^verbatim>\<open>ravel\<close> of a
  C-contiguous array is a view of it. \<open>NdArray\<close> stands for such an array.
\<close>

datatype collection = PyList "entry ndarray" | NdArray "entry ndarray"

fun asarray :: "collection \<Rightarrow> entry ndarray" where
  "asarray (PyList a) = a"
| "asarray (NdArray a) = a"

section \<open>The derivation engine for arrays: \<^verbatim>\<open>derived_array\<close>\<close>

subsection \<open>The workaround for entries that are plain numbers\<close>

text \<open>The first loop: the first \<^verbatim>\<open>Obs\<close> of the raveled data, if there is one.\<close>

fun first_Obs :: "entry list \<Rightarrow> Obs option" where
  "first_Obs [] = None"
| "first_Obs (IsObs ob # es) = Some ob"
| "first_Obs (e # es) = first_Obs es"

text \<open>
  \<^verbatim>\<open>first_name = i_data.names[0]\<close> and \<^verbatim>\<open>first_shape = i_data.shape[first_name]\<close>: the
  two variables stay unbound (\<open>None\<close>) when no entry is an \<^verbatim>\<open>Obs\<close>.
\<close>

definition first_name_shape :: "entry list \<Rightarrow> error + (string \<times> nat) option" where
  "first_name_shape es =
     (case first_Obs es of
        None \<Rightarrow> Inr None
      | Some ob \<Rightarrow>
          (case names ob of
             [] \<Rightarrow> Inl IndexError
           | nm # _ \<Rightarrow>
               (case shape ob nm of
                  None \<Rightarrow> Inl (KeyError nm)
                | Some n \<Rightarrow> Inr (Some (nm, n)))))"

text \<open>
  Modelled from the spec: the constructor of \<^verbatim>\<open>Obs\<close>, which is missing from the sources.
  \<^verbatim>\<open>Obs([x + np.zeros(n)], [nm])\<close> is the record of \<open>n\<close> samples all equal to \<open>x\<close> on the
  ensemble \<open>nm\<close>: its central value and its mean on \<open>nm\<close> are \<open>x\<close>, and every delta
  (sample minus central value) is zero.
\<close>

definition constant_Obs :: "real \<Rightarrow> nat \<Rightarrow> string \<Rightarrow> Obs" where
  "constant_Obs x n nm =
     \<lparr>names = [nm], shape = [nm \<mapsto> n], deltas = [nm \<mapsto> replicate n 0],
      r_values = [nm \<mapsto> x], obs_value = x\<rparr>"

text \<open>
  The second loop replaces every plain number of the raveled data by a constant record;
  with no \<^verbatim>\<open>Obs\<close> found, reading \<^verbatim>\<open>first_shape\<close> at the first plain number fails.
\<close>

fun promote :: "(string \<times> nat) option \<Rightarrow> entry list \<Rightarrow> error + entry list" where
  "promote fs [] = Inr []"
| "promote fs (Num x # es) =
     (case fs of
        None \<Rightarrow> Inl UnboundLocalError
      | Some (nm, n) \<Rightarrow>
          (case promote fs es of
             Inl e \<Rightarrow> Inl e
           | Inr r \<Rightarrow> Inr (IsObs (constant_Obs x n nm) # r)))"
| "promote fs (e # es) =
     (case promote fs es of Inl e' \<Rightarrow> Inl e' | Inr r \<Rightarrow> Inr (e # r))"

definition workaround :: "entry list \<Rightarrow> error + entry list" where
  "workaround es =
     (case first_name_shape es of Inl e \<Rightarrow> Inl e | Inr fs \<Rightarrow> promote fs es)"

subsection \<open>Ensemble names and the shape check\<close>

text \<open>
  \<^verbatim>\<open>o.names for o in raveled_data\<close> needs every entry to be a record by now.
\<close>

fun records :: "entry list \<Rightarrow> error + Obs list" where
  "records [] = Inr []"
| "records (IsObs ob # es) =
     (case records es of Inl e \<Rightarrow> Inl e | Inr r \<Rightarrow> Inr (ob # r))"
| "records (e # es) = Inl AttributeError"

definition new_names :: "Obs list \<Rightarrow> string list" where
  "new_names obs = sort (remdups (concat (map names obs)))"

text \<open>
  The inner loop of the shape check for one record, over the names, and the outer loop
  over the records. \<open>ns\<close> is the dictionary \<^verbatim>\<open>new_shape\<close>.
\<close>

fun shape_names :: "Obs \<Rightarrow> (string \<rightharpoonup> nat) \<Rightarrow> string list \<Rightarrow> error + (string \<rightharpoonup> nat)" where
  "shape_names ob ns [] = Inr ns"
| "shape_names ob ns (nm # nms) =
     (case shape ob nm of
        None \<Rightarrow> shape_names ob ns nms
      | Some tmp \<Rightarrow>
          (case ns nm of
             None \<Rightarrow> shape_names ob (ns(nm \<mapsto> tmp)) nms
           | Some old \<Rightarrow>
               if old \<noteq> tmp then Inl (ShapesDoNotMatch nm)
               else shape_names ob ns nms))"

fun new_shape :: "Obs list \<Rightarrow> string list \<Rightarrow> (string \<rightharpoonup> nat) \<Rightarrow> error + (string \<rightharpoonup> nat)" where
  "new_shape [] nms ns = Inr ns"
| "new_shape (ob # obs) nms ns =
     (case shape_names ob ns nms of
        Inl e \<Rightarrow> Inl e
      | Inr ns' \<Rightarrow> new_shape obs nms ns')"

subsection \<open>Central values, per-ensemble means and the Jacobian\<close>

text \<open>
  The function \<^verbatim>\<open>func\<close> maps an array of floats to an array of floats, or raises.
  The same type serves for \<^verbatim>\<open>jacobian(func)\<close>, which comes from the autograd library.
\<close>

type_synonym func = "real ndarray \<Rightarrow> error + real ndarray"

text \<open>
  \<^verbatim>\<open>values\<close>: a list comprehension for one-dimensional data, \<^verbatim>\<open>np.vectorize\<close> otherwise,
  which refuses an input of size zero.
\<close>

definition central_values :: "nat list \<Rightarrow> Obs list \<Rightarrow> error + real ndarray" where
  "central_values ds obs =
     (if length ds \<noteq> 1 \<and> obs = [] then Inl ValueError
      else Inr \<lparr>dims = ds, flat = map obs_value obs\<rparr>)"

text \<open>
  \<^verbatim>\<open>tmp = item.r_values.get(name)\<close>, replaced by \<^verbatim>\<open>item.value\<close> when it is \<^verbatim>\<open>None\<close>.
\<close>

definition mean_or_value :: "string \<Rightarrow> Obs \<Rightarrow> real" where
  "mean_or_value nm ob = (case r_values ob nm of None \<Rightarrow> obs_value ob | Some r \<Rightarrow> r)"

text \<open>
  The dictionary \<^verbatim>\<open>new_r_values\<close>, as the list of its items in the order of the names.
\<close>

fun new_r_values ::
  "func \<Rightarrow> nat list \<Rightarrow> Obs list \<Rightarrow> string list \<Rightarrow> error + (string \<times> real ndarray) list" where
  "new_r_values func ds obs [] = Inr []"
| "new_r_values func ds obs (nm # nms) =
     (case func \<lparr>dims = ds, flat = map (mean_or_value nm) obs\<rparr> of
        Inl e \<Rightarrow> Inl e
      | Inr r \<Rightarrow>
          (case new_r_values func ds obs nms of
             Inl e \<Rightarrow> Inl e
           | Inr rs \<Rightarrow> Inr ((nm, r) # rs)))"

text \<open>
  The three branches that choose \<^verbatim>\<open>deriv\<close>: a manual Jacobian after its shape check,
  the refusal of numerical differentiation, and automatic differentiation.
\<close>

definition derivative ::
  "func \<Rightarrow> kwargs \<Rightarrow> nat list \<Rightarrow> real ndarray \<Rightarrow> real ndarray \<Rightarrow> error + real ndarray" where
  "derivative jac kw ds values new_values =
     (case man_grad kw of
        Some d \<Rightarrow>
          if dims new_values @ ds \<noteq> dims d then Inl ManualDerivativeShape else Inr d
      | None \<Rightarrow>
          if num_grad kw then Inl MultiModeNotSupported else jac values)"

subsection \<open>Indexing and contraction of arrays\<close>

text \<open>
  \<^verbatim>\<open>np.ndenumerate\<close> visits the elements in row-major order; the index tuple of the
  element at position \<open>i\<close> of an array of the given shape:
\<close>

fun unravel_index :: "nat list \<Rightarrow> nat \<Rightarrow> nat list" where
  "unravel_index [] i = []"
| "unravel_index (d # ds) i = (i div prod_list ds) # unravel_index ds (i mod prod_list ds)"

text \<open>
  \<^verbatim>\<open>a[idx]\<close> for a tuple of indices: the sub-array that is left when the leading
  axes are fixed; an index out of range, or more indices than axes, is an \<^verbatim>\<open>IndexError\<close>.
\<close>

fun getitem :: "nat list \<Rightarrow> 'a list \<Rightarrow> nat list \<Rightarrow> error + 'a ndarray" where
  "getitem ds xs [] = Inr \<lparr>dims = ds, flat = xs\<rparr>"
| "getitem [] xs (k # ks) = Inl IndexError"
| "getitem (d # ds) xs (k # ks) =
     (if k < d then getitem ds (take (prod_list ds) (drop (k * prod_list ds) xs)) ks
      else Inl IndexError)"

text \<open>
  The means handed to the constructor of the output record are floats: an indexing that
  leaves a sub-array instead of a single float is outside the record type, and is
  reported as a \<^verbatim>\<open>TypeError\<close>.
\<close>

definition scalar_item :: "real ndarray \<Rightarrow> error + real" where
  "scalar_item a =
     (if dims a \<noteq> [] then Inl TypeError
      else (case flat a of [] \<Rightarrow> Inl IndexError | x # _ \<Rightarrow> Inr x))"

text \<open>Consecutive pieces of a list: \<open>n\<close> pieces of \<open>sz\<close> elements each.\<close>

fun chunks :: "nat \<Rightarrow> nat \<Rightarrow> 'a list \<Rightarrow> 'a list list" where
  "chunks 0 sz xs = []"
| "chunks (Suc n) sz xs = take sz xs # chunks n sz (drop sz xs)"

text \<open>
  One row of a matrix product: \<open>\<Sum>j. row[j] * rows[j]\<close>, a vector of length \<open>m\<close>.
\<close>

fun weighted_sum :: "nat \<Rightarrow> real list \<Rightarrow> real list list \<Rightarrow> real list" where
  "weighted_sum m (x # xs) (r # rs) = map2 (+) (map ((*) x) r) (weighted_sum m xs rs)"
| "weighted_sum m xs rs = replicate m 0"

text \<open>
  \<^verbatim>\<open>np.tensordot(a, b)\<close> with its default \<^verbatim>\<open>axes=2\<close>: the last two axes of \<open>a\<close> are
  summed against the first two axes of \<open>b\<close>. numpy reads \<^verbatim>\<open>a.shape[-2]\<close> and
  \<^verbatim>\<open>b.shape[1]\<close> (an \<^verbatim>\<open>IndexError\<close> for fewer than two axes) and raises a
  \<^verbatim>\<open>ValueError\<close> when the summed axes disagree.
\<close>

definition tensordot :: "real ndarray \<Rightarrow> real ndarray \<Rightarrow> error + real ndarray" where
  "tensordot a b =
     (if length (dims a) < 2 \<or> length (dims b) < 2 then Inl IndexError
      else if drop (length (dims a) - 2) (dims a) \<noteq> take 2 (dims b) then Inl ValueError
      else
        (let outer = take (length (dims a) - 2) (dims a);
             inner = drop 2 (dims b);
             k = prod_list (take 2 (dims b));
             m = prod_list inner;
             rows = chunks k m (flat b)
         in Inr \<lparr>dims = outer @ inner,
                 flat = concat (map (\<lambda>row. weighted_sum m row rows)
                                    (chunks (prod_list outer) k (flat a)))\<rparr>))"

text \<open>
  \<^verbatim>\<open>acc += t\<close> for a one-dimensional \<open>acc\<close>: \<open>t\<close> must broadcast to the shape of \<open>acc\<close>.
\<close>

definition iadd :: "real list \<Rightarrow> real ndarray \<Rightarrow> error + real list" where
  "iadd acc t =
     (if dims t = [length acc] then Inr (map2 (+) acc (flat t))
      else if dims t = [] \<or> dims t = [1] then
        (case flat t of [] \<Rightarrow> Inl ValueError | x # _ \<Rightarrow> Inr (map (\<lambda>a. a + x) acc))
      else Inl ValueError)"

subsection \<open>Extraction of the deltas and propagation\<close>

fun get_deltas :: "string \<Rightarrow> Obs list \<Rightarrow> error + real list list" where
  "get_deltas nm [] = Inr []"
| "get_deltas nm (ob # obs) =
     (case deltas ob nm of
        None \<Rightarrow> Inl (KeyError nm)
      | Some d \<Rightarrow>
          (case get_deltas nm obs of
             Inl e \<Rightarrow> Inl e
           | Inr r \<Rightarrow> Inr (d # r)))"

text \<open>
  The body of the loop over \<^verbatim>\<open>enumerate(data)\<close> for one ensemble \<open>nm\<close> and one sub-array
  \<^verbatim>\<open>dat\<close> of shape \<open>bd\<close> with the records \<open>blk\<close>. For one-dimensional data \<^verbatim>\<open>dat\<close> is a
  record, not an array, and has no \<^verbatim>\<open>ravel\<close>. The deltas are stacked and reshaped to
  \<^verbatim>\<open>dat.shape + (ens_length,)\<close>, which needs \<^verbatim>\<open>ens_length\<close> floats from every record.
\<close>

definition extract_block :: "string \<Rightarrow> nat list \<Rightarrow> Obs list \<Rightarrow> error + real ndarray" where
  "extract_block nm bd blk =
     (if bd = [] then Inl AttributeError
      else
        (case blk of
           [] \<Rightarrow> Inl IndexError
         | ob0 # _ \<Rightarrow>
             (case shape ob0 nm of
                None \<Rightarrow> Inl (KeyError nm)
              | Some ens_length \<Rightarrow>
                  (case get_deltas nm blk of
                     Inl e \<Rightarrow> Inl e
                   | Inr ds \<Rightarrow>
                       if list_all (\<lambda>d. length d = ens_length) ds
                       then Inr \<lparr>dims = bd @ [ens_length], flat = concat ds\<rparr>
                       else Inl ValueError))))"

fun extract_blocks :: "string \<Rightarrow> nat list \<Rightarrow> Obs list list \<Rightarrow> error + real ndarray list" where
  "extract_blocks nm bd [] = Inr []"
| "extract_blocks nm bd (blk # blks) =
     (case extract_block nm bd blk of
        Inl e \<Rightarrow> Inl e
      | Inr a \<Rightarrow>
          (case extract_blocks nm bd blks of
             Inl e \<Rightarrow> Inl e
           | Inr r \<Rightarrow> Inr (a # r)))"

text \<open>
  The dictionary \<^verbatim>\<open>d_extracted\<close>, as the list of its items in the order of the names.
  Iterating over an array without axes is a \<^verbatim>\<open>TypeError\<close>; otherwise the iteration
  runs over the sub-arrays along the first axis.
\<close>

fun d_extracted ::
  "nat list \<Rightarrow> Obs list \<Rightarrow> string list \<Rightarrow> error + (string \<times> real ndarray list) list" where
  "d_extracted ds obs [] = Inr []"
| "d_extracted ds obs (nm # nms) =
     (case ds of
        [] \<Rightarrow> Inl TypeError
      | d # bd \<Rightarrow>
          (case extract_blocks nm bd (chunks d (prod_list bd) obs) of
             Inl e \<Rightarrow> Inl e
           | Inr a \<Rightarrow>
               (case d_extracted ds obs nms of
                  Inl e \<Rightarrow> Inl e
                | Inr r \<Rightarrow> Inr ((nm, a) # r))))"

text \<open>
  The innermost loop: \<^verbatim>\<open>new_deltas[name] += np.tensordot(deriv[i_val + (i_dat,)], dat)\<close>
  for the sub-arrays \<^verbatim>\<open>dat\<close> of one ensemble, \<open>k\<close> counting \<^verbatim>\<open>i_dat\<close>.
\<close>

fun accumulate ::
  "real ndarray \<Rightarrow> nat list \<Rightarrow> nat \<Rightarrow> real ndarray list \<Rightarrow> real list \<Rightarrow> error + real list" where
  "accumulate deriv i_val k [] acc = Inr acc"
| "accumulate deriv i_val k (dat # dats) acc =
     (case getitem (dims deriv) (flat deriv) (i_val @ [k]) of
        Inl e \<Rightarrow> Inl e
      | Inr a \<Rightarrow>
          (case tensordot a dat of
             Inl e \<Rightarrow> Inl e
           | Inr t \<Rightarrow>
               (case iadd acc t of
                  Inl e \<Rightarrow> Inl e
                | Inr acc' \<Rightarrow> accumulate deriv i_val (Suc k) dats acc')))"

text \<open>
  \<^verbatim>\<open>ens_length = d_extracted[name][0].shape[-1]\<close>, the zero vector of that length, and
  the accumulation over the sub-arrays.
\<close>

definition new_delta :: "real ndarray \<Rightarrow> nat list \<Rightarrow> real ndarray list \<Rightarrow> error + real list" where
  "new_delta deriv i_val dats =
     (case dats of
        [] \<Rightarrow> Inl IndexError
      | d0 # _ \<Rightarrow>
          if dims d0 = [] then Inl IndexError
          else accumulate deriv i_val 0 dats (replicate (last (dims d0)) 0))"

fun new_deltas ::
  "real ndarray \<Rightarrow> nat list \<Rightarrow> (string \<times> real ndarray list) list \<Rightarrow> error + real list list" where
  "new_deltas deriv i_val [] = Inr []"
| "new_deltas deriv i_val ((nm, dats) # rest) =
     (case new_delta deriv i_val dats of
        Inl e \<Rightarrow> Inl e
      | Inr d \<Rightarrow>
          (case new_deltas deriv i_val rest of
             Inl e \<Rightarrow> Inl e
           | Inr r \<Rightarrow> Inr (d # r)))"

text \<open>\<^verbatim>\<open>new_means.append(new_r_values[name][i_val])\<close> for every name.\<close>

fun new_means :: "nat list \<Rightarrow> (string \<times> real ndarray) list \<Rightarrow> error + real list" where
  "new_means i_val [] = Inr []"
| "new_means i_val ((nm, r) # rest) =
     (case getitem (dims r) (flat r) i_val of
        Inl e \<Rightarrow> Inl e
      | Inr a \<Rightarrow>
          (case scalar_item a of
             Inl e \<Rightarrow> Inl e
           | Inr x \<Rightarrow>
               (case new_means i_val rest of
                  Inl e \<Rightarrow> Inl e
                | Inr r' \<Rightarrow> Inr (x # r'))))"

text \<open>
  Modelled from the spec: the constructor of \<^verbatim>\<open>Obs\<close> called with \<^verbatim>\<open>means\<close>, which is
  missing from the sources. The samples are taken as the deltas of the ensembles, the
  means as their per-ensemble means, and an ensemble has as many configurations as it
  has deltas. The central value is assigned by the caller.
\<close>

definition Obs_with_means :: "real list list \<Rightarrow> string list \<Rightarrow> real list \<Rightarrow> Obs" where
  "Obs_with_means samples nms means =
     \<lparr>names = nms, shape = map_of (zip nms (map length samples)),
      deltas = map_of (zip nms samples), r_values = map_of (zip nms means),
      obs_value = 0\<rparr>"

text \<open>
  The body of the loop over \<^verbatim>\<open>np.ndenumerate(new_values)\<close> for the element at position
  \<open>i\<close> with value \<open>new_val\<close>.
\<close>

definition result_entry ::
  "real ndarray \<Rightarrow> nat list \<Rightarrow> (string \<times> real ndarray list) list \<Rightarrow>
   (string \<times> real ndarray) list \<Rightarrow> string list \<Rightarrow> nat \<Rightarrow> real \<Rightarrow> error + Obs" where
  "result_entry deriv nds dex rvals nms i new_val =
     (case new_deltas deriv (unravel_index nds i) dex of
        Inl e \<Rightarrow> Inl e
      | Inr samples \<Rightarrow>
          (case new_means (unravel_index nds i) rvals of
             Inl e \<Rightarrow> Inl e
           | Inr means \<Rightarrow>
               Inr ((Obs_with_means samples nms means)\<lparr>obs_value := new_val\<rparr>)))"

fun final_result ::
  "real ndarray \<Rightarrow> nat list \<Rightarrow> (string \<times> real ndarray list) list \<Rightarrow>
   (string \<times> real ndarray) list \<Rightarrow> string list \<Rightarrow> nat \<Rightarrow> real list \<Rightarrow> error + Obs list" where
  "final_result deriv nds dex rvals nms i [] = Inr []"
| "final_result deriv nds dex rvals nms i (new_val # vals) =
     (case result_entry deriv nds dex rvals nms i new_val of
        Inl e \<Rightarrow> Inl e
      | Inr ob \<Rightarrow>
          (case final_result deriv nds dex rvals nms (Suc i) vals of
             Inl e \<Rightarrow> Inl e
           | Inr r \<Rightarrow> Inr (ob # r)))"

subsection \<open>The function\<close>

text \<open>
  The part of \<^verbatim>\<open>derived_array\<close> from the evaluation of \<^verbatim>\<open>func\<close> on: the raveled data
  are the records \<open>obs\<close>, the shape of the data is \<open>ds\<close>, the ensemble names are \<open>nms\<close>.
\<close>

definition propagate ::
  "func \<Rightarrow> func \<Rightarrow> kwargs \<Rightarrow> nat list \<Rightarrow> Obs list \<Rightarrow> string list \<Rightarrow> error + Obs ndarray" where
  "propagate func jac kw ds obs nms =
     (case central_values ds obs of
        Inl e \<Rightarrow> Inl e
      | Inr values \<Rightarrow>
     (case func values of
        Inl e \<Rightarrow> Inl e
      | Inr new_values \<Rightarrow>
     (case new_r_values func ds obs nms of
        Inl e \<Rightarrow> Inl e
      | Inr rvals \<Rightarrow>
     (case derivative jac kw ds values new_values of
        Inl e \<Rightarrow> Inl e
      | Inr deriv \<Rightarrow>
     (case d_extracted ds obs nms of
        Inl e \<Rightarrow> Inl e
      | Inr dex \<Rightarrow>
     (case final_result deriv (dims new_values) dex rvals nms 0 (flat new_values) of
        Inl e \<Rightarrow> Inl e
      | Inr res \<Rightarrow> Inr \<lparr>dims = dims new_values, flat = res\<rparr>))))))"

text \<open>
  The part before: the ensemble names of the raveled data after the workaround, and the
  check that the configuration counts of every ensemble agree.
\<close>

definition check_shapes :: "entry list \<Rightarrow> error + (Obs list \<times> string list)" where
  "check_shapes raveled =
     (case records raveled of
        Inl e \<Rightarrow> Inl e
      | Inr obs \<Rightarrow>
          (case new_shape obs (new_names obs) Map.empty of
             Inl e \<Rightarrow> Inl e
           | Inr ns \<Rightarrow> Inr (obs, new_names obs)))"

text \<open>
  \<^verbatim>\<open>derived_array(func, data, **kwargs)\<close>, with \<open>jac\<close> for \<^verbatim>\<open>jacobian(func)\<close>. The result is
  the collection of the caller as it is after the call, and the array of records
  returned or the exception raised. The workaround assigns to \<^verbatim>\<open>raveled_data\<close>, which is
  the array of the caller when that is a numpy array.
\<close>

definition derived_array ::
  "func \<Rightarrow> func \<Rightarrow> kwargs \<Rightarrow> collection \<Rightarrow> collection \<times> (error + Obs ndarray)" where
  "derived_array func jac kw data =
     (case workaround (flat (asarray data)) of
        Inl e \<Rightarrow> (data, Inl e)
      | Inr raveled \<Rightarrow>
          ((case data of
              PyList a \<Rightarrow> PyList a
            | NdArray a \<Rightarrow> NdArray (a\<lparr>flat := raveled\<rparr>)),
           (case check_shapes raveled of
              Inl e \<Rightarrow> Inl e
            | Inr (obs, nms) \<Rightarrow> propagate func jac kw (dims (asarray data)) obs nms)))"

subsection \<open>The inputs as the specification speaks of them\<close>

text \<open>
  The ensemble names that an entry of the input references, and what an entry
  contributes to the per-ensemble mean of the ensemble \<open>nm\<close> in the words of the
  specification: its own mean for that ensemble if it has one, its central value
  otherwise; a plain number is its own value. An entry that is neither a record nor a
  number has no value, and no call that returns has such an entry.
\<close>

definition entry_names :: "entry \<Rightarrow> string list" where
  "entry_names e = (case e of IsObs ob \<Rightarrow> names ob | _ \<Rightarrow> [])"

definition entry_mean :: "string \<Rightarrow> entry \<Rightarrow> real" where
  "entry_mean nm e =
     (case e of
        Num x \<Rightarrow> x
      | IsObs ob \<Rightarrow> (case r_values ob nm of Some r \<Rightarrow> r | None \<Rightarrow> obs_value ob)
      | Other \<Rightarrow> 0)"

text \<open>The central value of an entry: of a record, or the plain number itself.\<close>

definition entry_value :: "entry \<Rightarrow> real" where
  "entry_value e = (case e of Num x \<Rightarrow> x | IsObs ob \<Rightarrow> obs_value ob | Other \<Rightarrow> 0)"

section \<open>The derivation engine for lists: \<^verbatim>\<open>derived_observable\<close>\<close>

text \<open>Sequential evaluation: the first exception ends a loop.\<close>

fun sequence :: "(error + 'a) list \<Rightarrow> error + 'a list" where
  "sequence [] = Inr []"
| "sequence (x # xs) =
     (case x of
        Inl e \<Rightarrow> Inl e
      | Inr v \<Rightarrow> (case sequence xs of Inl e \<Rightarrow> Inl e | Inr vs \<Rightarrow> Inr (v # vs)))"

text \<open>
  Modelled from the spec: \<^verbatim>\<open>derived_observable\<close>, which \<^verbatim>\<open>linalg.py\<close> imports from a module
  that is missing from the sources. It is the derivation engine of the specification
  (section 4.1): the inputs are records and plain numbers, a plain number being an exact
  constant without ensembles; the configuration counts of every ensemble must agree;
  the value is \<open>f\<close> on the central values; the mean for an ensemble is \<open>f\<close> on the
  per-ensemble means, with the central value for an input without that ensemble; the
  Jacobian comes from a provider \<open>jac\<close> and has the shape of the output followed by the
  shape of the input; the deltas are the Jacobian-weighted sums of the deltas of the
  inputs, with zero for an input that does not reference the ensemble.
\<close>

definition operand :: "entry \<Rightarrow> error + Obs" where
  "operand e =
     (case e of
        IsObs ob \<Rightarrow> Inr ob
      | Num x \<Rightarrow> Inr \<lparr>names = [], shape = Map.empty, deltas = Map.empty,
                       r_values = Map.empty, obs_value = x\<rparr>
      | Other \<Rightarrow> Inl TypeError)"

definition deltas_or_zero :: "nat \<Rightarrow> string \<Rightarrow> Obs \<Rightarrow> real list" where
  "deltas_or_zero n nm ob = (case deltas ob nm of Some d \<Rightarrow> d | None \<Rightarrow> replicate n 0)"

definition ensemble_count :: "(string \<rightharpoonup> nat) \<Rightarrow> string \<Rightarrow> nat" where
  "ensemble_count ns nm = (case ns nm of Some n \<Rightarrow> n | None \<Rightarrow> 0)"

definition derived_record ::
  "real ndarray \<Rightarrow> (string \<rightharpoonup> nat) \<Rightarrow> (string \<times> real ndarray) list \<Rightarrow> string list \<Rightarrow>
   Obs list \<Rightarrow> nat \<Rightarrow> real \<Rightarrow> Obs" where
  "derived_record J ns rvals nms obs i new_val =
     (Obs_with_means
        (map (\<lambda>nm. weighted_sum (ensemble_count ns nm)
                      (take (length obs) (drop (i * length obs) (flat J)))
                      (map (deltas_or_zero (ensemble_count ns nm) nm) obs)) nms)
        nms
        (map (\<lambda>p. flat (snd p) ! i) rvals))\<lparr>obs_value := new_val\<rparr>"

definition derived_observable :: "func \<Rightarrow> func \<Rightarrow> entry ndarray \<Rightarrow> error + Obs ndarray" where
  "derived_observable func jac data =
     (case sequence (map operand (flat data)) of
        Inl e \<Rightarrow> Inl e
      | Inr obs \<Rightarrow>
     (case new_shape obs (new_names obs) Map.empty of
        Inl e \<Rightarrow> Inl e
      | Inr ns \<Rightarrow>
     (case func \<lparr>dims = dims data, flat = map obs_value obs\<rparr> of
        Inl e \<Rightarrow> Inl e
      | Inr nv \<Rightarrow>
     (case new_r_values func (dims data) obs (new_names obs) of
        Inl e \<Rightarrow> Inl e
      | Inr rvals \<Rightarrow>
     (case jac \<lparr>dims = dims data, flat = map obs_value obs\<rparr> of
        Inl e \<Rightarrow> Inl e
      | Inr J \<Rightarrow>
          if dims J = dims nv @ dims data \<and>
             list_all (\<lambda>p. dims (snd p) = dims nv \<and> length (flat (snd p)) = length (flat nv)) rvals
          then Inr \<lparr>dims = dims nv,
                    flat = map (\<lambda>i. derived_record J ns rvals (new_names obs) obs i (flat nv ! i))
                               [0..<length (flat nv)]\<rparr>
          else Inl ShapeMismatch)))))"

text \<open>
  Modelled from the spec: the arithmetic of records, which is missing from the sources
  with the class. The product of a record with a float and the sum of two records are
  the derivation engine on the linear function with its exact Jacobian (section 8,
  linearity).
\<close>

definition single :: "error + Obs ndarray \<Rightarrow> error + Obs" where
  "single r =
     (case r of
        Inl e \<Rightarrow> Inl e
      | Inr a \<Rightarrow>
          (case flat a of
             [ob] \<Rightarrow> if dims a = [] then Inr ob else Inl ShapeMismatch
           | _ \<Rightarrow> Inl ShapeMismatch))"

definition obs_times :: "Obs \<Rightarrow> real \<Rightarrow> error + Obs" where
  "obs_times ob c =
     single (derived_observable
       (\<lambda>x. case flat x of [u] \<Rightarrow> Inr \<lparr>dims = [], flat = [u * c]\<rparr> | _ \<Rightarrow> Inl IndexError)
       (\<lambda>x. Inr \<lparr>dims = [1], flat = [c]\<rparr>)
       \<lparr>dims = [1], flat = [IsObs ob]\<rparr>)"

definition obs_plus :: "Obs \<Rightarrow> Obs \<Rightarrow> error + Obs" where
  "obs_plus a b =
     single (derived_observable
       (\<lambda>x. case flat x of [u, v] \<Rightarrow> Inr \<lparr>dims = [], flat = [u + v]\<rparr> | _ \<Rightarrow> Inl IndexError)
       (\<lambda>x. Inr \<lparr>dims = [2], flat = [1, 1]\<rparr>)
       \<lparr>dims = [2], flat = [IsObs a, IsObs b]\<rparr>)"

text \<open>\<^verbatim>\<open>c * e\<close> and \<^verbatim>\<open>-e\<close> for an entry of an array of objects.\<close>

definition times_entry :: "real \<Rightarrow> entry \<Rightarrow> error + entry" where
  "times_entry c e =
     (case e of
        Num x \<Rightarrow> Inr (Num (c * x))
      | IsObs ob \<Rightarrow> (case obs_times ob c of Inl e' \<Rightarrow> Inl e' | Inr r \<Rightarrow> Inr (IsObs r))
      | Other \<Rightarrow> Inl TypeError)"


text \<open>
  \<^verbatim>\<open>row @ np.identity(dim)\<close> for a row of records: numpy multiplies the objects with the
  floats of a column and adds the products from the left.
\<close>

fun sum_records :: "Obs \<Rightarrow> Obs list \<Rightarrow> error + Obs" where
  "sum_records acc [] = Inr acc"
| "sum_records acc (p # ps) =
     (case obs_plus acc p of Inl e \<Rightarrow> Inl e | Inr s \<Rightarrow> sum_records s ps)"

definition dot_column :: "Obs list \<Rightarrow> real list \<Rightarrow> error + Obs" where
  "dot_column row col =
     (case sequence (map2 obs_times row col) of
        Inl e \<Rightarrow> Inl e
      | Inr [] \<Rightarrow> Inl ValueError
      | Inr (p # ps) \<Rightarrow> sum_records p ps)"

definition identity_column :: "nat \<Rightarrow> nat \<Rightarrow> real list" where
  "identity_column n k = map (\<lambda>j. if j = k then 1 else 0) [0..<n]"

definition times_identity :: "nat \<Rightarrow> Obs list \<Rightarrow> error + Obs list" where
  "times_identity n row = sequence (map (\<lambda>k. dot_column row (identity_column n k)) [0..<n])"

section \<open>The matrix adapters\<close>

text \<open>
  The argument of an adapter: a numpy array, or a Python list of entries. The
  eigenvalues of numpy, \<^verbatim>\<open>np.linalg.eig(m)[0]\<close>, are a parameter \<open>np_eig\<close> of the model:
  a function from a real array to a list of complex numbers, or an exception.
\<close>

datatype matrix_arg = AsArray "entry ndarray" | AsList "entry list"

fun as_ndarray :: "matrix_arg \<Rightarrow> entry ndarray" where
  "as_ndarray (AsArray a) = a"
| "as_ndarray (AsList l) = \<lparr>dims = [length l], flat = l\<rparr>"

type_synonym eigenvalues = "real ndarray \<Rightarrow> error + complex list"

text \<open>
  The first lines of every \<^verbatim>\<open>_mat\<close>: the list \<open>x\<close> of values as a square matrix.
\<close>

definition mat_of :: "real ndarray \<Rightarrow> error + real ndarray" where
  "mat_of x =
     (if sqrt (real (length (flat x))) \<noteq> real (nat \<lfloor>sqrt (real (length (flat x)))\<rfloor>)
      then Inl InputNotSquare
      else Inr \<lparr>dims = [nat \<lfloor>sqrt (real (length (flat x)))\<rfloor>,
                       nat \<lfloor>sqrt (real (length (flat x)))\<rfloor>],
                flat = flat x\<rparr>)"

text \<open>
  \<^verbatim>\<open>raveled_obs\<close>: \<^verbatim>\<open>(1 * (obs.ravel())).tolist()\<close> for an array, the list itself for a list.
\<close>

definition raveled_obs :: "matrix_arg \<Rightarrow> error + entry list" where
  "raveled_obs obs =
     (case obs of
        AsArray a \<Rightarrow> sequence (map (times_entry 1) (flat a))
      | AsList l \<Rightarrow> Inr l)"

subsection \<open>\<^verbatim>\<open>eig\<close>\<close>

text \<open>
  The function of the automatic path, \<^verbatim>\<open>lambda x: anp.real(anp.linalg.eig(x)[0])\<close>, and
  the \<^verbatim>\<open>_mat\<close> of \<^verbatim>\<open>_num_diff_eig\<close> for \<^verbatim>\<open>n = 0\<close> and the index \<open>i\<close>.
\<close>

definition eig_lambda :: "eigenvalues \<Rightarrow> func" where
  "eig_lambda np_eig x =
     (case np_eig x of
        Inl e \<Rightarrow> Inl e
      | Inr w \<Rightarrow> Inr \<lparr>dims = [length w], flat = map Re w\<rparr>)"

definition eig_mat :: "eigenvalues \<Rightarrow> nat \<Rightarrow> func" where
  "eig_mat np_eig i x =
     (case mat_of x of
        Inl e \<Rightarrow> Inl e
      | Inr m \<Rightarrow>
          (case np_eig m of
             Inl e \<Rightarrow> Inl e
           | Inr w \<Rightarrow>
               if i < length w then Inr \<lparr>dims = [], flat = [Re (w ! i)]\<rparr>
               else Inl IndexError))"

text \<open>
  \<^verbatim>\<open>_num_diff_eig\<close>: one call of the engine for every eigenvalue, with the numerical
  Jacobian \<open>num_jac i\<close> of the \<open>i\<close>-th function, and the product with the identity.
\<close>

definition num_diff_eig :: "eigenvalues \<Rightarrow> (nat \<Rightarrow> func) \<Rightarrow> matrix_arg \<Rightarrow> error + Obs ndarray" where
  "num_diff_eig np_eig num_jac obs =
     (case raveled_obs obs of
        Inl e \<Rightarrow> Inl e
      | Inr raveled \<Rightarrow>
          (case sequence
                  (map (\<lambda>i. single (derived_observable (eig_mat np_eig i) (num_jac i)
                                      \<lparr>dims = [length raveled], flat = raveled\<rparr>))
                       [0..<nat \<lfloor>sqrt (real (length raveled))\<rfloor>]) of
             Inl e \<Rightarrow> Inl e
           | Inr res_vec \<Rightarrow>
               (case times_identity (nat \<lfloor>sqrt (real (length raveled))\<rfloor>) res_vec of
                  Inl e \<Rightarrow> Inl e
                | Inr r \<Rightarrow> Inr \<lparr>dims = [nat \<lfloor>sqrt (real (length raveled))\<rfloor>], flat = r\<rparr>)))"

definition eig ::
  "eigenvalues \<Rightarrow> func \<Rightarrow> (nat \<Rightarrow> func) \<Rightarrow> kwargs \<Rightarrow> matrix_arg \<Rightarrow> error + Obs ndarray" where
  "eig np_eig jac num_jac kw obs =
     (if num_grad kw then num_diff_eig np_eig num_jac obs
      else derived_observable (eig_lambda np_eig) jac (as_ndarray obs))"

subsection \<open>\<^verbatim>\<open>mat_mat_op\<close>\<close>















section \<open>The gradient rule of the general eigenvalue problem\<close>


















section \<open>Example inputs\<close>

text \<open>
  Records on an ensemble \<open>A\<close> with two configurations and on an ensemble \<open>B\<close> with three,
  and a record that gives \<open>A\<close> three configurations.
\<close>

definition obs_a :: Obs where
  "obs_a = \<lparr>names = [''A''], shape = [''A'' \<mapsto> 2], deltas = [''A'' \<mapsto> [1, -1]],
            r_values = [''A'' \<mapsto> 3], obs_value = 3\<rparr>"

definition obs_a2 :: Obs where
  "obs_a2 = \<lparr>names = [''A''], shape = [''A'' \<mapsto> 2], deltas = [''A'' \<mapsto> [2, -2]],
             r_values = [''A'' \<mapsto> 7], obs_value = 7\<rparr>"

definition obs_b :: Obs where
  "obs_b = \<lparr>names = [''B''], shape = [''B'' \<mapsto> 3], deltas = [''B'' \<mapsto> [1, 0, -1]],
            r_values = [''B'' \<mapsto> 5], obs_value = 5\<rparr>"

definition obs_a3 :: Obs where
  "obs_a3 = \<lparr>names = [''A''], shape = [''A'' \<mapsto> 3], deltas = [''A'' \<mapsto> [1, 0, -1]],
             r_values = [''A'' \<mapsto> 4], obs_value = 4\<rparr>"

text \<open>
  The function that \<^verbatim>\<open>matmul\<close> hands to \<^verbatim>\<open>derived_array\<close>, \<^verbatim>\<open>lambda x: x[0] @ x[1]\<close>,
  on a stack \<open>x\<close> of square matrices, and the Jacobian of the product of two matrices
  with one row and one column.
\<close>

definition matmul_func :: func where
  "matmul_func x =
     (case dims x of
        [k, n, m] \<Rightarrow>
          if k < 2 then Inl IndexError
          else if m \<noteq> n then Inl ValueError
          else Inr \<lparr>dims = [n, m],
                    flat = concat (map (\<lambda>row. weighted_sum m row
                                             (chunks n m (take (n * m) (drop (n * m) (flat x)))))
                                       (chunks n m (take (n * m) (flat x))))\<rparr>
      | _ \<Rightarrow> Inl ValueError)"

definition product_jacobian :: func where
  "product_jacobian x =
     (case flat x of
        [a, b] \<Rightarrow> Inr \<lparr>dims = [1, 1, 2, 1, 1], flat = [b, a]\<rparr>
      | _ \<Rightarrow> Inl ValueError)"

definition no_kwargs :: kwargs where
  "no_kwargs = \<lparr>man_grad = None, num_grad = False\<rparr>"

text \<open>
  A record on the ensemble \<open>A\<close> with a given central value. The eigenvalues of a real
  matrix with two rows and two columns are the roots of its characteristic polynomial;
  the four records with the values of the rotation by a quarter turn form a matrix
  whose eigenvalues are \<open>\<i>\<close> and \<open>- \<i>\<close>.
\<close>

definition obs_on_a :: "real \<Rightarrow> Obs" where
  "obs_on_a v = \<lparr>names = [''A''], shape = [''A'' \<mapsto> 2], deltas = [''A'' \<mapsto> [1, -1]],
                 r_values = [''A'' \<mapsto> v], obs_value = v\<rparr>"

definition eig_2x2 :: eigenvalues where
  "eig_2x2 m =
     (if dims m = [2, 2] then
        (case flat m of
           [a, b, c, d] \<Rightarrow>
             Inr [(complex_of_real (a + d)
                     + csqrt (complex_of_real ((a + d)\<^sup>2 - 4 * (a * d - b * c)))) / 2,
                  (complex_of_real (a + d)
                     - csqrt (complex_of_real ((a + d)\<^sup>2 - 4 * (a * d - b * c)))) / 2]
         | _ \<Rightarrow> Inl LinAlgError)
      else Inl LinAlgError)"

definition rotation :: "entry ndarray" where
  "rotation = \<lparr>dims = [2, 2],
               flat = [IsObs (obs_on_a 0), IsObs (obs_on_a (- 1)),
                       IsObs (obs_on_a 1), IsObs (obs_on_a 0)]\<rparr>"








text \<open>
  Two functions of a list of numbers with their Jacobians: \<^verbatim>\<open>lambda x: 2 * x\<close>, and
  \<^verbatim>\<open>lambda x: anp.sum(x)\<close>, whose result has no axis.
\<close>

definition scale_func :: func where
  "scale_func x = Inr \<lparr>dims = dims x, flat = map (\<lambda>v. 2 * v) (flat x)\<rparr>"

definition scale_jacobian :: func where
  "scale_jacobian x =
     Inr \<lparr>dims = dims x @ dims x,
          flat = concat (map (\<lambda>i. map (\<lambda>j. if i = j then 2 else 0) [0..<length (flat x)])
                             [0..<length (flat x)])\<rparr>"

definition sum_func :: func where
  "sum_func x = Inr \<lparr>dims = [], flat = [sum_list (flat x)]\<rparr>"

definition sum_jacobian :: func where
  "sum_jacobian x = Inr \<lparr>dims = dims x, flat = map (\<lambda>v. 1) (flat x)\<rparr>"


section \<open>Properties of the workaround\<close>

lemma first_Obs_None_iff:
  "first_Obs es = None \<longleftrightarrow> (\<forall>ob. IsObs ob \<notin> set es)"
  by (induction es rule: first_Obs.induct) auto

lemma first_Obs_Some_mem:
  "first_Obs es = Some ob \<Longrightarrow> IsObs ob \<in> set es"
  by (induction es rule: first_Obs.induct) auto

text \<open>What the second loop puts in the place of an entry.\<close>

lemma promote_Some:
  "promote (Some (nm, n)) es =
     Inr (map (\<lambda>e. case e of Num x \<Rightarrow> IsObs (constant_Obs x n nm) | _ \<Rightarrow> e) es)"
proof (induction es)
  case (Cons e es)
  then show ?case by (cases e) auto
qed simp

lemma promote_None_no_Num:
  "(\<forall>x. Num x \<notin> set es) \<Longrightarrow> promote None es = Inr es"
proof (induction es)
  case (Cons e es)
  then show ?case by (cases e) auto
qed simp

lemma promote_None_Num:
  "Num x \<in> set es \<Longrightarrow> promote None es = Inl UnboundLocalError"
proof (induction es)
  case (Cons e es)
  then show ?case by (cases e) (auto split: sum.splits)
qed simp

lemma promote_length:
  "promote fs es = Inr es' \<Longrightarrow> length es' = length es"
  by (induction fs es arbitrary: es' rule: promote.induct)
     (auto split: option.splits sum.splits prod.splits)

lemma records_Other:
  "Other \<in> set es \<Longrightarrow> isl (records es)"
  by (induction es rule: records.induct) (auto split: sum.splits)

lemma records_Num:
  "Num x \<in> set es \<Longrightarrow> isl (records es)"
  by (induction es rule: records.induct) (auto split: sum.splits)

lemma records_map_IsObs:
  "records (map IsObs obs) = Inr obs"
  by (induction obs) auto

lemma records_Inr_iff:
  "records es = Inr obs \<longleftrightarrow> es = map IsObs obs"
proof
  show "records es = Inr obs \<Longrightarrow> es = map IsObs obs"
    by (induction es arbitrary: obs rule: records.induct) (auto split: sum.splits)
qed (simp add: records_map_IsObs)

text \<open>An error of the workaround or of the shape check is the outcome of the call.\<close>

lemma derived_array_workaround_error:
  "workaround (flat (asarray data)) = Inl e \<Longrightarrow>
     derived_array func jac kw data = (data, Inl e)"
  by (simp add: derived_array_def)

lemma derived_array_check_error:
  "workaround (flat (asarray data)) = Inr raveled \<Longrightarrow> check_shapes raveled = Inl e \<Longrightarrow>
     snd (derived_array func jac kw data) = Inl e"
  by (simp add: derived_array_def)


lemma no_Obs_fails:
  assumes "es \<noteq> []" and "first_Obs es = None"
  shows "isl (workaround es) \<or> (\<exists>r. workaround es = Inr r \<and> isl (check_shapes r))"
proof (cases "\<exists>x. Num x \<in> set es")
  case True
  then show ?thesis
    using assms by (auto simp: workaround_def first_name_shape_def promote_None_Num)
next
  case False
  then have w: "workaround es = Inr es"
    using assms by (simp add: workaround_def first_name_shape_def promote_None_no_Num)
  obtain e es' where es: "es = e # es'"
    using assms(1) by (cases es) auto
  have "e = Other"
    using False assms(2) es by (cases e) (auto simp: first_Obs_None_iff)
  then have "isl (check_shapes es)"
    by (simp add: check_shapes_def es)
  with w show ?thesis by simp
qed

text \<open>The call after a workaround that passes, and the workaround with a record found.\<close>

lemma derived_array_after_workaround:
  "workaround (flat (asarray data)) = Inr raveled \<Longrightarrow>
     derived_array func jac kw data =
       ((case data of
           PyList a \<Rightarrow> PyList a
         | NdArray a \<Rightarrow> NdArray (a\<lparr>flat := raveled\<rparr>)),
        (case check_shapes raveled of
           Inl e \<Rightarrow> Inl e
         | Inr (obs, nms) \<Rightarrow> propagate func jac kw (dims (asarray data)) obs nms))"
  by (simp add: derived_array_def)

lemma workaround_promoted:
  assumes "first_Obs es = Some ob" "names ob = nm # rest" "shape ob nm = Some n"
  shows "workaround es =
      Inr (map (\<lambda>e. case e of Num x \<Rightarrow> IsObs (constant_Obs x n nm) | _ \<Rightarrow> e) es)"
  using assms by (simp add: workaround_def first_name_shape_def promote_Some)

section \<open>Claims about the inputs of \<^verbatim>\<open>derived_array\<close>\<close>

text \<open>
  Claim C10, amended for the empty collection. When the first record found in the
  raveled input is \<open>ob\<close>, with first ensemble \<open>nm\<close> of \<open>n\<close> configurations, the call is the
  shape check and the propagation run on the entries in which every plain number \<open>x\<close> is
  replaced by the constant record of value \<open>x\<close> on \<open>nm\<close> and all other entries are kept;
  an array of the caller holds these entries after the call. A call whose input is not
  empty and holds plain numbers only raises (the variable \<^verbatim>\<open>first_shape\<close> is unbound) and
  the collection of the caller is as before; more generally no call on a non-empty input
  without a record returns a result. On an empty input there is no number to promote,
  nothing reads the unbound variables, and the call is the propagation on no record.
\<close>

theorem derived_array_requires_Obs:
  "(first_Obs (flat (asarray data)) = Some ob \<and> names ob = nm # rest \<and> shape ob nm = Some n \<longrightarrow>
      derived_array func jac kw data =
        ((case data of
            PyList a \<Rightarrow> PyList a
          | NdArray a \<Rightarrow>
              NdArray (a\<lparr>flat := map (\<lambda>e. case e of Num x \<Rightarrow> IsObs (constant_Obs x n nm) | _ \<Rightarrow> e)
                                    (flat a)\<rparr>)),
         (case check_shapes (map (\<lambda>e. case e of Num x \<Rightarrow> IsObs (constant_Obs x n nm) | _ \<Rightarrow> e)
                               (flat (asarray data))) of
            Inl e \<Rightarrow> Inl e
          | Inr (obs, nms) \<Rightarrow> propagate func jac kw (dims (asarray data)) obs nms)))
   \<and> (flat (asarray data) \<noteq> [] \<and> list_all (\<lambda>e. \<exists>x. e = Num x) (flat (asarray data)) \<longrightarrow>
        derived_array func jac kw data = (data, Inl UnboundLocalError))
   \<and> (flat (asarray data) \<noteq> [] \<and> first_Obs (flat (asarray data)) = None \<longrightarrow>
        isl (snd (derived_array func jac kw data)))
   \<and> (flat (asarray data) = [] \<longrightarrow>
        derived_array func jac kw data =
          (data, propagate func jac kw (dims (asarray data)) [] []))"
proof (intro conjI impI)
  let ?p = "\<lambda>e. case e of Num x \<Rightarrow> IsObs (constant_Obs x n nm) | _ \<Rightarrow> e"
  assume "first_Obs (flat (asarray data)) = Some ob \<and> names ob = nm # rest \<and> shape ob nm = Some n"
  then have w: "workaround (flat (asarray data)) = Inr (map ?p (flat (asarray data)))"
    by (intro workaround_promoted) auto
  show "derived_array func jac kw data =
        ((case data of
            PyList a \<Rightarrow> PyList a
          | NdArray a \<Rightarrow> NdArray (a\<lparr>flat := map ?p (flat a)\<rparr>)),
         (case check_shapes (map ?p (flat (asarray data))) of
            Inl e \<Rightarrow> Inl e
          | Inr (obs, nms) \<Rightarrow> propagate func jac kw (dims (asarray data)) obs nms))"
    unfolding derived_array_after_workaround [OF w] by (cases data) simp_all
next
  assume a: "flat (asarray data) \<noteq> [] \<and> list_all (\<lambda>e. \<exists>x. e = Num x) (flat (asarray data))"
  then obtain e es' where es: "flat (asarray data) = e # es'"
    by (cases "flat (asarray data)") auto
  with a obtain x where x: "e = Num x" by auto
  from a have "\<forall>ob. IsObs ob \<notin> set (flat (asarray data))"
    by (auto simp: list_all_iff)
  then have "first_Obs (flat (asarray data)) = None"
    by (simp add: first_Obs_None_iff)
  moreover have "Num x \<in> set (flat (asarray data))"
    by (simp add: es x)
  ultimately have "workaround (flat (asarray data)) = Inl UnboundLocalError"
    by (simp add: workaround_def first_name_shape_def promote_None_Num)
  then show "derived_array func jac kw data = (data, Inl UnboundLocalError)"
    by (rule derived_array_workaround_error)
next
  assume "flat (asarray data) \<noteq> [] \<and> first_Obs (flat (asarray data)) = None"
  then have "isl (workaround (flat (asarray data))) \<or>
      (\<exists>r. workaround (flat (asarray data)) = Inr r \<and> isl (check_shapes r))"
    by (intro no_Obs_fails) auto
  then show "isl (snd (derived_array func jac kw data))"
    by (auto simp: derived_array_def split: sum.splits)
next
  assume e: "flat (asarray data) = []"
  have w: "workaround [] = Inr []"
    by (simp add: workaround_def first_name_shape_def)
  have c: "check_shapes [] = Inr ([], [])"
    by (simp add: check_shapes_def new_names_def)
  show "derived_array func jac kw data =
          (data, propagate func jac kw (dims (asarray data)) [] [])"
    using e unfolding derived_array_after_workaround [OF w [folded e]] c [folded e]
    by (cases data) simp_all
qed

theorem derived_array_requires_Obs_witness:
  "derived_array matmul_func product_jacobian no_kwargs
        (NdArray \<lparr>dims = [2, 1, 1], flat = [Num 2, IsObs obs_a]\<rparr>) =
      (NdArray \<lparr>dims = [2, 1, 1], flat = [IsObs (constant_Obs 2 2 ''A''), IsObs obs_a]\<rparr>,
       Inr \<lparr>dims = [1, 1],
            flat = [\<lparr>names = [''A''], shape = [''A'' \<mapsto> 2], deltas = [''A'' \<mapsto> [2, -2]],
                     r_values = [''A'' \<mapsto> 6], obs_value = 6\<rparr>]\<rparr>)
   \<and> derived_array matmul_func product_jacobian no_kwargs
        (NdArray \<lparr>dims = [2, 1, 1], flat = [Num 2, Num 3]\<rparr>) =
      (NdArray \<lparr>dims = [2, 1, 1], flat = [Num 2, Num 3]\<rparr>, Inl UnboundLocalError)
   \<and> isl (snd (derived_array matmul_func product_jacobian no_kwargs
        (PyList \<lparr>dims = [2, 1, 1], flat = [Other, Num 3]\<rparr>)))
   \<and> derived_array scale_func scale_jacobian no_kwargs (PyList \<lparr>dims = [0], flat = []\<rparr>) =
      (PyList \<lparr>dims = [0], flat = []\<rparr>, Inr \<lparr>dims = [0], flat = []\<rparr>)"
proof (intro conjI)
  have h: "first_Obs (flat (asarray (NdArray \<lparr>dims = [2, 1, 1], flat = [Num 2, IsObs obs_a]\<rparr>))) =
        Some obs_a \<and> names obs_a = ''A'' # [] \<and> shape obs_a ''A'' = Some 2"
    by (simp add: obs_a_def)
  from derived_array_requires_Obs
      [where data = "NdArray \<lparr>dims = [2, 1, 1], flat = [Num 2, IsObs obs_a]\<rparr>"
         and ob = obs_a and nm = "''A''" and rest = "[]" and n = 2
         and func = matmul_func and jac = product_jacobian and kw = no_kwargs] h
  have "derived_array matmul_func product_jacobian no_kwargs
        (NdArray \<lparr>dims = [2, 1, 1], flat = [Num 2, IsObs obs_a]\<rparr>) =
      (NdArray \<lparr>dims = [2, 1, 1], flat = [IsObs (constant_Obs 2 2 ''A''), IsObs obs_a]\<rparr>,
       (case check_shapes (map (\<lambda>e. case e of Num x \<Rightarrow> IsObs (constant_Obs x 2 ''A'') | _ \<Rightarrow> e)
              (flat (asarray (NdArray \<lparr>dims = [2, 1, 1], flat = [Num 2, IsObs obs_a]\<rparr>)))) of
            Inl e \<Rightarrow> Inl e
          | Inr (obs, nms) \<Rightarrow> propagate matmul_func product_jacobian no_kwargs
              (dims (asarray (NdArray \<lparr>dims = [2, 1, 1], flat = [Num 2, IsObs obs_a]\<rparr>))) obs nms))"
    by simp
  moreover have "check_shapes [IsObs (constant_Obs 2 2 ''A''), IsObs obs_a] =
      Inr ([constant_Obs 2 2 ''A'', obs_a], [''A''])"
    by (simp add: check_shapes_def new_names_def obs_a_def constant_Obs_def)
  moreover have "propagate matmul_func product_jacobian no_kwargs [2, 1, 1]
      [constant_Obs 2 2 ''A'', obs_a] [''A''] =
      Inr \<lparr>dims = [1, 1],
            flat = [\<lparr>names = [''A''], shape = [''A'' \<mapsto> 2], deltas = [''A'' \<mapsto> [2, -2]],
                     r_values = [''A'' \<mapsto> 6], obs_value = 6\<rparr>]\<rparr>"
    by (simp add: propagate_def central_values_def matmul_func_def mean_or_value_def
        derivative_def no_kwargs_def product_jacobian_def extract_block_def result_entry_def
        new_delta_def tensordot_def iadd_def scalar_item_def Obs_with_means_def
        obs_a_def constant_Obs_def eval_nat_numeral)
  ultimately show "derived_array matmul_func product_jacobian no_kwargs
        (NdArray \<lparr>dims = [2, 1, 1], flat = [Num 2, IsObs obs_a]\<rparr>) =
      (NdArray \<lparr>dims = [2, 1, 1], flat = [IsObs (constant_Obs 2 2 ''A''), IsObs obs_a]\<rparr>,
       Inr \<lparr>dims = [1, 1],
            flat = [\<lparr>names = [''A''], shape = [''A'' \<mapsto> 2], deltas = [''A'' \<mapsto> [2, -2]],
                     r_values = [''A'' \<mapsto> 6], obs_value = 6\<rparr>]\<rparr>)"
    by simp
  show "derived_array matmul_func product_jacobian no_kwargs
        (NdArray \<lparr>dims = [2, 1, 1], flat = [Num 2, Num 3]\<rparr>) =
      (NdArray \<lparr>dims = [2, 1, 1], flat = [Num 2, Num 3]\<rparr>, Inl UnboundLocalError)"
    using derived_array_requires_Obs
      [where data = "NdArray \<lparr>dims = [2, 1, 1], flat = [Num 2, Num 3]\<rparr>"]
    by simp
  show "isl (snd (derived_array matmul_func product_jacobian no_kwargs
        (PyList \<lparr>dims = [2, 1, 1], flat = [Other, Num 3]\<rparr>)))"
    using derived_array_requires_Obs
      [where data = "PyList \<lparr>dims = [2, 1, 1], flat = [Other, Num 3]\<rparr>"]
    by simp
  have "propagate scale_func scale_jacobian no_kwargs [0] [] [] = Inr \<lparr>dims = [0], flat = []\<rparr>"
    by (simp add: propagate_def central_values_def scale_func_def scale_jacobian_def
        derivative_def no_kwargs_def)
  then show "derived_array scale_func scale_jacobian no_kwargs (PyList \<lparr>dims = [0], flat = []\<rparr>) =
      (PyList \<lparr>dims = [0], flat = []\<rparr>, Inr \<lparr>dims = [0], flat = []\<rparr>)"
    using derived_array_requires_Obs
      [where data = "PyList \<lparr>dims = [0], flat = []\<rparr>" and func = scale_func
         and jac = scale_jacobian and kw = no_kwargs]
    by simp
qed

text \<open>
  The claim as it is written, that a call without a record among its entries fails,
  does not hold for the empty list: no entry is a record, every entry is a plain number,
  and the call returns, an empty array for \<^verbatim>\<open>lambda x: 2 * x\<close> and one record without
  ensembles for \<^verbatim>\<open>lambda x: anp.sum(x)\<close>.
\<close>

theorem derived_array_empty_collection:
  "first_Obs (flat (asarray (PyList \<lparr>dims = [0], flat = []\<rparr>))) = None
   \<and> list_all (\<lambda>e. \<exists>x. e = Num x) (flat (asarray (PyList \<lparr>dims = [0], flat = []\<rparr>)))
   \<and> snd (derived_array scale_func scale_jacobian no_kwargs (PyList \<lparr>dims = [0], flat = []\<rparr>)) =
        Inr \<lparr>dims = [0], flat = []\<rparr>
   \<and> snd (derived_array sum_func sum_jacobian no_kwargs (PyList \<lparr>dims = [0], flat = []\<rparr>)) =
        Inr \<lparr>dims = [],
             flat = [\<lparr>names = [], shape = Map.empty, deltas = Map.empty, r_values = Map.empty,
                      obs_value = 0\<rparr>]\<rparr>"
  by (simp add: derived_array_def workaround_def first_name_shape_def check_shapes_def
      new_names_def propagate_def central_values_def scale_func_def scale_jacobian_def
      sum_func_def sum_jacobian_def derivative_def no_kwargs_def result_entry_def
      Obs_with_means_def)

section \<open>The choice of the Jacobian\<close>

lemma derivative_num_grad:
  "num_grad kw \<Longrightarrow> man_grad kw = None \<Longrightarrow>
     derivative jac kw ds v nv = Inl MultiModeNotSupported"
  by (simp add: derivative_def)

lemma derivative_num_grad_jac:
  "num_grad kw \<Longrightarrow> derivative jac kw ds v nv = derivative jac' kw ds v nv"
  by (simp add: derivative_def split: option.splits)


lemma propagate_num_grad:
  "num_grad kw \<Longrightarrow> man_grad kw = None \<Longrightarrow> isl (propagate func jac kw ds obs nms)"
  by (simp add: propagate_def derivative_num_grad split: sum.splits)

lemma propagate_num_grad_jac:
  assumes "num_grad kw"
  shows "propagate func jac kw ds obs nms = propagate func jac' kw ds obs nms"
proof -
  have eq: "derivative jac kw = derivative jac' kw"
    by (intro ext) (rule derivative_num_grad_jac [OF assms])
  show ?thesis
    unfolding propagate_def eq by (rule refl)
qed

text \<open>
  Claim C6, as the code has it. A call with \<^verbatim>\<open>num_grad=True\<close> and no \<^verbatim>\<open>man_grad\<close> raises
  and returns no result: the branch that chooses the Jacobian answers with the
  exception for the unsupported numerical mode. Whenever \<^verbatim>\<open>num_grad=True\<close> the
  automatic Jacobian is not consulted: the outcome is the same for every \<open>jac\<close>.
\<close>

theorem num_grad_refused:
  "(num_grad kw \<and> man_grad kw = None \<longrightarrow>
      isl (snd (derived_array func jac kw data))
      \<and> derivative jac kw ds v nv = Inl MultiModeNotSupported)
   \<and> (num_grad kw \<longrightarrow> derived_array func jac kw data = derived_array func jac' kw data)"
proof (intro conjI impI)
  assume a: "num_grad kw \<and> man_grad kw = None"
  then have "isl (propagate func jac kw ds' obs nms)" for ds' obs nms
    by (simp add: propagate_num_grad)
  then show "isl (snd (derived_array func jac kw data))"
    by (auto simp: derived_array_def split: sum.splits)
  from a show "derivative jac kw ds v nv = Inl MultiModeNotSupported"
    by (simp add: derivative_num_grad)
next
  assume "num_grad kw"
  then have eq: "propagate func jac kw = propagate func jac' kw"
    by (intro ext) (rule propagate_num_grad_jac)
  show "derived_array func jac kw data = derived_array func jac' kw data"
    unfolding derived_array_def eq by (rule refl)
qed

theorem num_grad_refused_witness:
  "isl (snd (derived_array matmul_func product_jacobian \<lparr>man_grad = None, num_grad = True\<rparr>
        (PyList \<lparr>dims = [2, 1, 1], flat = [IsObs obs_a, IsObs obs_a2]\<rparr>)))
   \<and> derived_array matmul_func product_jacobian
        \<lparr>man_grad = Some \<lparr>dims = [1, 1, 2, 1, 1], flat = [7, 3]\<rparr>, num_grad = True\<rparr>
        (PyList \<lparr>dims = [2, 1, 1], flat = [IsObs obs_a, IsObs obs_a2]\<rparr>) =
      derived_array matmul_func (\<lambda>x. Inl ValueError)
        \<lparr>man_grad = Some \<lparr>dims = [1, 1, 2, 1, 1], flat = [7, 3]\<rparr>, num_grad = True\<rparr>
        (PyList \<lparr>dims = [2, 1, 1], flat = [IsObs obs_a, IsObs obs_a2]\<rparr>)"
proof (intro conjI)
  show "isl (snd (derived_array matmul_func product_jacobian \<lparr>man_grad = None, num_grad = True\<rparr>
        (PyList \<lparr>dims = [2, 1, 1], flat = [IsObs obs_a, IsObs obs_a2]\<rparr>)))"
    using num_grad_refused [where kw = "\<lparr>man_grad = None, num_grad = True\<rparr>"]
    by simp
  show "derived_array matmul_func product_jacobian
        \<lparr>man_grad = Some \<lparr>dims = [1, 1, 2, 1, 1], flat = [7, 3]\<rparr>, num_grad = True\<rparr>
        (PyList \<lparr>dims = [2, 1, 1], flat = [IsObs obs_a, IsObs obs_a2]\<rparr>) =
      derived_array matmul_func (\<lambda>x. Inl ValueError)
        \<lparr>man_grad = Some \<lparr>dims = [1, 1, 2, 1, 1], flat = [7, 3]\<rparr>, num_grad = True\<rparr>
        (PyList \<lparr>dims = [2, 1, 1], flat = [IsObs obs_a, IsObs obs_a2]\<rparr>)"
    using num_grad_refused
      [where kw = "\<lparr>man_grad = Some \<lparr>dims = [1, 1, 2, 1, 1], flat = [7, 3]\<rparr>, num_grad = True\<rparr>"]
    by simp
qed

text \<open>
  The claim as it is written fails: with a manual Jacobian of the right shape, a call
  with \<^verbatim>\<open>num_grad=True\<close> returns the product of the two records, of value 21 with the
  deltas \<open>7 * [1, -1] + 3 * [2, -2]\<close>.
\<close>

theorem num_grad_with_man_grad_returns:
  "num_grad \<lparr>man_grad = Some \<lparr>dims = [1, 1, 2, 1, 1], flat = [7, 3]\<rparr>, num_grad = True\<rparr>
   \<and> snd (derived_array matmul_func product_jacobian
        \<lparr>man_grad = Some \<lparr>dims = [1, 1, 2, 1, 1], flat = [7, 3]\<rparr>, num_grad = True\<rparr>
        (PyList \<lparr>dims = [2, 1, 1], flat = [IsObs obs_a, IsObs obs_a2]\<rparr>)) =
      Inr \<lparr>dims = [1, 1],
           flat = [\<lparr>names = [''A''], shape = [''A'' \<mapsto> 2], deltas = [''A'' \<mapsto> [13, -13]],
                    r_values = [''A'' \<mapsto> 21], obs_value = 21\<rparr>]\<rparr>"
  by (simp add: derived_array_def workaround_def first_name_shape_def obs_a_def obs_a2_def
      check_shapes_def new_names_def propagate_def central_values_def matmul_func_def
      mean_or_value_def derivative_def extract_block_def result_entry_def new_delta_def
      tensordot_def iadd_def scalar_item_def Obs_with_means_def eval_nat_numeral)

section \<open>An input that does not reference an ensemble\<close>

lemma d_extracted_missing_ensemble:
  "d_extracted [2, 1, 1] [obs_a, obs_b] [''A'', ''B''] = Inl (KeyError ''A'')"
  by (simp add: extract_block_def obs_a_def obs_b_def eval_nat_numeral)

lemma check_shapes_a_b:
  "check_shapes [IsObs obs_a, IsObs obs_b] = Inr ([obs_a, obs_b], [''A'', ''B''])"
  by (simp add: check_shapes_def new_names_def obs_a_def obs_b_def)

lemma workaround_a_b:
  "workaround [IsObs obs_a, IsObs obs_b] = Inr [IsObs obs_a, IsObs obs_b]"
  by (simp add: workaround_def first_name_shape_def obs_a_def)

lemma propagate_extraction_fails:
  "d_extracted ds obs nms = Inl e \<Longrightarrow> isl (propagate func jac kw ds obs nms)"
  by (auto simp: propagate_def split: sum.splits)

lemma propagate_extraction_error:
  "central_values ds obs = Inr v \<Longrightarrow> func v = Inr nv \<Longrightarrow>
   new_r_values func ds obs nms = Inr rvals \<Longrightarrow> derivative jac kw ds v nv = Inr d \<Longrightarrow>
   d_extracted ds obs nms = Inl e \<Longrightarrow> propagate func jac kw ds obs nms = Inl e"
  by (simp add: propagate_def)

text \<open>
  Claim C1, at the input where the code departs from it. \<^verbatim>\<open>matmul\<close> of the matrix
  \<open>[[a]]\<close> on the ensemble \<open>A\<close> with the matrix \<open>[[b]]\<close> on the ensemble \<open>B\<close> calls
  \<^verbatim>\<open>derived_array\<close> on the two stacked matrices. No function, Jacobian or keyword makes
  the call return: the extraction of the deltas of \<open>A\<close> reads \<^verbatim>\<open>shape['A']\<close> of \<open>b\<close>,
  which is a \<^verbatim>\<open>KeyError\<close>, where the claim has the deltas \<open>b * [1, -1]\<close> on \<open>A\<close> and
  \<open>a * [1, 0, -1]\<close> on \<open>B\<close>.
\<close>

theorem derived_array_missing_ensemble:
  "isl (snd (derived_array func jac kw
        (PyList \<lparr>dims = [2, 1, 1], flat = [IsObs obs_a, IsObs obs_b]\<rparr>)))
   \<and> snd (derived_array matmul_func product_jacobian no_kwargs
        (PyList \<lparr>dims = [2, 1, 1], flat = [IsObs obs_a, IsObs obs_b]\<rparr>)) =
      Inl (KeyError ''A'')"
proof
  have "isl (propagate func jac kw [2, 1, 1] [obs_a, obs_b] [''A'', ''B''])"
    by (rule propagate_extraction_fails) (rule d_extracted_missing_ensemble)
  then show "isl (snd (derived_array func jac kw
        (PyList \<lparr>dims = [2, 1, 1], flat = [IsObs obs_a, IsObs obs_b]\<rparr>)))"
    by (simp add: derived_array_def workaround_a_b check_shapes_a_b)
  have "propagate matmul_func product_jacobian no_kwargs [2, 1, 1] [obs_a, obs_b] [''A'', ''B'']
      = Inl (KeyError ''A'')"
  proof (rule propagate_extraction_error)
    show "central_values [2, 1, 1] [obs_a, obs_b] = Inr \<lparr>dims = [2, 1, 1], flat = [3, 5]\<rparr>"
      by (simp add: central_values_def obs_a_def obs_b_def)
    show "matmul_func \<lparr>dims = [2, 1, 1], flat = [3, 5]\<rparr> = Inr \<lparr>dims = [1, 1], flat = [15]\<rparr>"
      by (simp add: matmul_func_def eval_nat_numeral)
    show "new_r_values matmul_func [2, 1, 1] [obs_a, obs_b] [''A'', ''B''] =
        Inr [(''A'', \<lparr>dims = [1, 1], flat = [15]\<rparr>), (''B'', \<lparr>dims = [1, 1], flat = [15]\<rparr>)]"
      by (simp add: matmul_func_def mean_or_value_def obs_a_def obs_b_def eval_nat_numeral)
    show "derivative product_jacobian no_kwargs [2, 1, 1] \<lparr>dims = [2, 1, 1], flat = [3, 5]\<rparr>
        \<lparr>dims = [1, 1], flat = [15]\<rparr> = Inr \<lparr>dims = [1, 1, 2, 1, 1], flat = [5, 3]\<rparr>"
      by (simp add: derivative_def no_kwargs_def product_jacobian_def)
    show "d_extracted [2, 1, 1] [obs_a, obs_b] [''A'', ''B''] = Inl (KeyError ''A'')"
      by (rule d_extracted_missing_ensemble)
  qed
  then show "snd (derived_array matmul_func product_jacobian no_kwargs
        (PyList \<lparr>dims = [2, 1, 1], flat = [IsObs obs_a, IsObs obs_b]\<rparr>)) =
      Inl (KeyError ''A'')"
    by (simp add: derived_array_def workaround_a_b check_shapes_a_b)
qed

section \<open>The shape check\<close>

lemma set_new_names:
  "set (new_names obs) = (\<Union>ob\<in>set obs. set (names ob))"
  by (simp add: new_names_def)

lemma promote_keeps_records:
  "promote fs es = Inr r \<Longrightarrow> IsObs ob \<in> set es \<Longrightarrow> IsObs ob \<in> set r"
proof (induction es arbitrary: r)
  case (Cons e es)
  then show ?case
    by (cases e) (auto split: option.splits sum.splits prod.splits)
qed simp

lemma workaround_keeps_records:
  "workaround es = Inr r \<Longrightarrow> IsObs ob \<in> set es \<Longrightarrow> IsObs ob \<in> set r"
  by (auto simp: workaround_def split: sum.splits dest: promote_keeps_records)

text \<open>The dictionary \<^verbatim>\<open>new_shape\<close> only grows, and it holds every count it has seen.\<close>

lemma shape_names_mono:
  "shape_names ob ns nms = Inr ns' \<Longrightarrow> ns nm = Some v \<Longrightarrow> ns' nm = Some v"
proof (induction nms arbitrary: ns)
  case (Cons n nms)
  then show ?case
    by (cases "n = nm") (auto split: option.splits if_splits)
qed simp

lemma shape_names_holds:
  "shape_names ob ns nms = Inr ns' \<Longrightarrow> nm \<in> set nms \<Longrightarrow> shape ob nm = Some a \<Longrightarrow>
     ns' nm = Some a"
proof (induction nms arbitrary: ns)
  case (Cons n nms)
  show ?case
  proof (cases "n = nm")
    case True
    then show ?thesis
      using Cons.prems(1,3) shape_names_mono [of ob _ nms ns' nm a]
      by (auto split: option.splits if_splits)
  next
    case False
    then show ?thesis
      using Cons by (auto split: option.splits if_splits)
  qed
qed simp

lemma new_shape_mono:
  "new_shape obs nms ns = Inr ns' \<Longrightarrow> ns nm = Some v \<Longrightarrow> ns' nm = Some v"
proof (induction obs arbitrary: ns)
  case (Cons ob obs)
  then show ?case
    by (auto split: sum.splits dest: shape_names_mono)
qed simp

lemma new_shape_holds:
  "new_shape obs nms ns = Inr ns' \<Longrightarrow> ob \<in> set obs \<Longrightarrow> nm \<in> set nms \<Longrightarrow>
     shape ob nm = Some a \<Longrightarrow> ns' nm = Some a"
proof (induction obs arbitrary: ns)
  case (Cons o1 obs)
  from Cons.prems(1) obtain ns1 where
    s1: "shape_names o1 ns nms = Inr ns1" and s2: "new_shape obs nms ns1 = Inr ns'"
    by (auto split: sum.splits)
  show ?case
  proof (cases "ob = o1")
    case True
    then have "ns1 nm = Some a"
      using s1 Cons.prems(3,4) by (auto dest: shape_names_holds)
    then show ?thesis
      using s2 by (rule new_shape_mono [rotated])
  next
    case False
    then show ?thesis
      using Cons.IH [OF s2] Cons.prems by auto
  qed
qed simp

lemma new_shape_mismatch:
  assumes "o1 \<in> set obs" and "o2 \<in> set obs" and "nm \<in> set nms"
    and "shape o1 nm = Some a" and "shape o2 nm = Some b" and "a \<noteq> b"
  shows "isl (new_shape obs nms ns)"
proof (cases "new_shape obs nms ns")
  case (Inr ns')
  then have "ns' nm = Some a" and "ns' nm = Some b"
    using assms by (auto dest: new_shape_holds)
  with assms(6) show ?thesis by simp
qed simp

text \<open>
  When the counts of the records agree, the dictionary never contradicts a record and
  the check goes through.
\<close>

lemma shape_names_agree:
  assumes "\<forall>nm v. ns nm = Some v \<longrightarrow> (\<forall>o'\<in>S. \<forall>a. shape o' nm = Some a \<longrightarrow> a = v)"
    and "ob \<in> S"
    and "\<forall>o1\<in>S. \<forall>o2\<in>S. \<forall>nm a b. shape o1 nm = Some a \<longrightarrow> shape o2 nm = Some b \<longrightarrow> a = b"
  shows "\<exists>ns'. shape_names ob ns nms = Inr ns' \<and>
      (\<forall>nm v. ns' nm = Some v \<longrightarrow> (\<forall>o'\<in>S. \<forall>a. shape o' nm = Some a \<longrightarrow> a = v))"
  using assms(1)
proof (induction nms arbitrary: ns)
  case Nil
  then show ?case by simp
next
  case (Cons n nms)
  show ?case
  proof (cases "shape ob n")
    case None
    then show ?thesis using Cons by simp
  next
    case (Some tmp)
    show ?thesis
    proof (cases "ns n")
      case None
      have "\<forall>nm v. (ns(n \<mapsto> tmp)) nm = Some v \<longrightarrow>
          (\<forall>o'\<in>S. \<forall>a. shape o' nm = Some a \<longrightarrow> a = v)"
        using Cons.prems assms(2,3) Some by (auto split: if_splits)
      then have "\<exists>ns'. shape_names ob (ns(n \<mapsto> tmp)) nms = Inr ns' \<and>
          (\<forall>nm v. ns' nm = Some v \<longrightarrow> (\<forall>o'\<in>S. \<forall>a. shape o' nm = Some a \<longrightarrow> a = v))"
        by (rule Cons.IH)
      then show ?thesis
        using Some None by simp
    next
      case old: (Some old)
      then have "old = tmp"
        using Cons.prems assms(2) Some by blast
      then show ?thesis
        using Cons old Some by simp
    qed
  qed
qed

lemma new_shape_agree:
  assumes "\<forall>nm v. ns nm = Some v \<longrightarrow> (\<forall>o'\<in>S. \<forall>a. shape o' nm = Some a \<longrightarrow> a = v)"
    and "set obs \<subseteq> S"
    and "\<forall>o1\<in>S. \<forall>o2\<in>S. \<forall>nm a b. shape o1 nm = Some a \<longrightarrow> shape o2 nm = Some b \<longrightarrow> a = b"
  shows "\<exists>ns'. new_shape obs nms ns = Inr ns'"
  using assms(1,2)
proof (induction obs arbitrary: ns)
  case Nil
  then show ?case by simp
next
  case (Cons ob obs)
  then have "ob \<in> S" by simp
  from shape_names_agree [OF Cons.prems(1) this assms(3), of nms]
  obtain ns1 where s1: "shape_names ob ns nms = Inr ns1"
    and inv: "\<forall>nm v. ns1 nm = Some v \<longrightarrow> (\<forall>o'\<in>S. \<forall>a. shape o' nm = Some a \<longrightarrow> a = v)"
    by blast
  from Cons.IH [OF inv] Cons.prems(2) obtain ns' where "new_shape obs nms ns1 = Inr ns'"
    by auto
  with s1 show ?case by simp
qed

text \<open>The records after the workaround are those of the input and constant records.\<close>

lemma workaround_records:
  assumes "workaround es = Inr r" and "IsObs ob \<in> set r"
  shows "IsObs ob \<in> set es \<or>
    (\<exists>ob0 nm rest n x. first_Obs es = Some ob0 \<and> names ob0 = nm # rest \<and>
        shape ob0 nm = Some n \<and> ob = constant_Obs x n nm)"
proof (cases "first_name_shape es")
  case (Inl e)
  then show ?thesis using assms by (simp add: workaround_def)
next
  case (Inr fs)
  show ?thesis
  proof (cases fs)
    case None
    have "r = es"
    proof (cases "\<exists>x. Num x \<in> set es")
      case True
      then show ?thesis
        using assms(1) Inr None by (auto simp: workaround_def promote_None_Num)
    next
      case False
      then show ?thesis
        using assms(1) Inr None by (simp add: workaround_def promote_None_no_Num)
    qed
    then show ?thesis using assms(2) by simp
  next
    case (Some p)
    obtain nm n where p: "p = (nm, n)" by (cases p)
    from Inr Some p obtain ob0 rest where
      f: "first_Obs es = Some ob0" "names ob0 = nm # rest" "shape ob0 nm = Some n"
      by (auto simp: first_name_shape_def split: option.splits list.splits)
    have "r = map (\<lambda>e. case e of Num x \<Rightarrow> IsObs (constant_Obs x n nm) | _ \<Rightarrow> e) es"
      using assms(1) Inr Some p by (simp add: workaround_def promote_Some)
    with assms(2) obtain e where e: "e \<in> set es"
      "IsObs ob = (case e of Num x \<Rightarrow> IsObs (constant_Obs x n nm) | _ \<Rightarrow> e)"
      by auto
    show ?thesis
    proof (cases e)
      case (Num x)
      then have "ob = constant_Obs x n nm"
        using e(2) by simp
      then show ?thesis
        using f by blast
    next
      case (IsObs ob')
      then show ?thesis
        using e by simp
    next
      case Other
      then show ?thesis
        using e(2) by simp
    qed
  qed
qed

lemma shape_constant_Obs:
  "shape (constant_Obs x n nm) nm' = (if nm' = nm then Some n else None)"
  by (simp add: constant_Obs_def)

text \<open>
  Claim C3. When two records of the input give different configuration counts to an
  ensemble that one of them names, the call raises, and it raises the same exception
  whatever the function, the Jacobian and the keywords are: the exception comes before
  \<^verbatim>\<open>func\<close> is evaluated and before any delta is propagated. When all records that
  reference an ensemble agree on its count, the shape check raises nothing: the outcome
  is that of the workaround, of the reading of the names, and of the propagation.
\<close>

theorem ensemble_shape_mismatch:
  "(IsObs o1 \<in> set (flat (asarray data)) \<and> IsObs o2 \<in> set (flat (asarray data)) \<and>
    nm \<in> set (names o1) \<and> shape o1 nm = Some a \<and> shape o2 nm = Some b \<and> a \<noteq> b \<longrightarrow>
      (\<exists>e. \<forall>func jac kw. snd (derived_array func jac kw data) = Inl e))
   \<and> ((\<forall>p1 p2 n c1 c2. IsObs p1 \<in> set (flat (asarray data)) \<and>
          IsObs p2 \<in> set (flat (asarray data)) \<and> shape p1 n = Some c1 \<and> shape p2 n = Some c2
          \<longrightarrow> c1 = c2) \<longrightarrow>
        snd (derived_array func jac kw data) =
          (case workaround (flat (asarray data)) of
             Inl e \<Rightarrow> Inl e
           | Inr raveled \<Rightarrow>
               (case records raveled of
                  Inl e \<Rightarrow> Inl e
                | Inr obs \<Rightarrow>
                    propagate func jac kw (dims (asarray data)) obs (new_names obs))))"
proof (intro conjI impI)
  let ?es = "flat (asarray data)"
  assume a: "IsObs o1 \<in> set ?es \<and> IsObs o2 \<in> set ?es \<and>
    nm \<in> set (names o1) \<and> shape o1 nm = Some a \<and> shape o2 nm = Some b \<and> a \<noteq> b"
  show "\<exists>e. \<forall>func jac kw. snd (derived_array func jac kw data) = Inl e"
  proof (cases "workaround ?es")
    case (Inl e)
    then show ?thesis
      by (auto simp: derived_array_workaround_error)
  next
    case (Inr raveled)
    have "isl (check_shapes raveled)"
    proof (cases "records raveled")
      case (Inl e)
      then show ?thesis by (simp add: check_shapes_def)
    next
      case obs: (Inr obs)
      then have r: "raveled = map IsObs obs"
        by (simp add: records_Inr_iff)
      have "IsObs o1 \<in> set raveled" "IsObs o2 \<in> set raveled"
        using a Inr by (auto dest: workaround_keeps_records)
      then have m: "o1 \<in> set obs" "o2 \<in> set obs"
        using r by auto
      then have "nm \<in> set (new_names obs)"
        using a by (auto simp: set_new_names)
      then have "isl (new_shape obs (new_names obs) Map.empty)"
        using m a by (intro new_shape_mismatch [of o1 obs o2 nm _ a b]) auto
      then show ?thesis
        using obs by (auto simp: check_shapes_def split: sum.splits)
    qed
    then obtain e where "check_shapes raveled = Inl e"
      by (cases "check_shapes raveled") auto
    then show ?thesis
      using Inr by (auto simp: derived_array_check_error)
  qed
next
  let ?es = "flat (asarray data)"
  assume agree: "\<forall>p1 p2 n c1 c2. IsObs p1 \<in> set ?es \<and> IsObs p2 \<in> set ?es \<and>
      shape p1 n = Some c1 \<and> shape p2 n = Some c2 \<longrightarrow> c1 = c2"
  show "snd (derived_array func jac kw data) =
          (case workaround ?es of
             Inl e \<Rightarrow> Inl e
           | Inr raveled \<Rightarrow>
               (case records raveled of
                  Inl e \<Rightarrow> Inl e
                | Inr obs \<Rightarrow>
                    propagate func jac kw (dims (asarray data)) obs (new_names obs)))"
  proof (cases "workaround ?es")
    case (Inl e)
    then show ?thesis
      by (simp add: derived_array_workaround_error)
  next
    case (Inr raveled)
    show ?thesis
    proof (cases "records raveled")
      case (Inl e)
      then show ?thesis
        using Inr by (simp add: derived_array_def check_shapes_def)
    next
      case obs: (Inr obs)
      then have r: "raveled = map IsObs obs"
        by (simp add: records_Inr_iff)
      have count: "c = c'" if "p \<in> set obs" "p' \<in> set obs"
        "shape p n = Some c" "shape p' n = Some c'" for p p' n c c'
      proof -
        have "IsObs p \<in> set raveled" "IsObs p' \<in> set raveled"
          using that r by auto
        then consider
          (both) "IsObs p \<in> set ?es" "IsObs p' \<in> set ?es"
          | (left) ob0 n0 rest k x where "IsObs p \<in> set ?es" "first_Obs ?es = Some ob0"
              "names ob0 = n0 # rest" "shape ob0 n0 = Some k" "p' = constant_Obs x k n0"
          | (right) ob0 n0 rest k x where "IsObs p' \<in> set ?es" "first_Obs ?es = Some ob0"
              "names ob0 = n0 # rest" "shape ob0 n0 = Some k" "p = constant_Obs x k n0"
          | (none) ob0 n0 rest k x x' where "first_Obs ?es = Some ob0"
              "names ob0 = n0 # rest" "shape ob0 n0 = Some k" "p = constant_Obs x k n0"
              "p' = constant_Obs x' k n0"
          using workaround_records [OF Inr, of p] workaround_records [OF Inr, of p']
          by fastforce
        then show ?thesis
        proof cases
          case both
          then show ?thesis
            using agree that by blast
        next
          case left
          then have "n = n0" "c' = k"
            using that by (auto simp: shape_constant_Obs split: if_splits)
          moreover have "IsObs ob0 \<in> set ?es"
            using left by (simp add: first_Obs_Some_mem)
          ultimately show ?thesis
            using agree left that by blast
        next
          case right
          then have "n = n0" "c = k"
            using that by (auto simp: shape_constant_Obs split: if_splits)
          moreover have "IsObs ob0 \<in> set ?es"
            using right by (simp add: first_Obs_Some_mem)
          ultimately show ?thesis
            using agree right that by blast
        next
          case none
          then show ?thesis
            using that by (auto simp: shape_constant_Obs split: if_splits)
        qed
      qed
      have "\<exists>ns'. new_shape obs (new_names obs) Map.empty = Inr ns'"
        by (rule new_shape_agree [where S = "set obs"]) (use count in \<open>auto\<close>)
      then show ?thesis
        using Inr obs by (auto simp: derived_array_def check_shapes_def)
    qed
  qed
qed

theorem ensemble_shape_mismatch_witness:
  "(\<exists>e. \<forall>func jac kw. snd (derived_array func jac kw
        (PyList \<lparr>dims = [2, 1, 1], flat = [IsObs obs_a, IsObs obs_a3]\<rparr>)) = Inl e)
   \<and> snd (derived_array matmul_func product_jacobian no_kwargs
        (PyList \<lparr>dims = [2, 1, 1], flat = [IsObs obs_a, IsObs obs_a2]\<rparr>)) =
      propagate matmul_func product_jacobian no_kwargs [2, 1, 1] [obs_a, obs_a2] [''A'']"
proof (intro conjI)
  show "\<exists>e. \<forall>func jac kw. snd (derived_array func jac kw
        (PyList \<lparr>dims = [2, 1, 1], flat = [IsObs obs_a, IsObs obs_a3]\<rparr>)) = Inl e"
    using ensemble_shape_mismatch
      [where data = "PyList \<lparr>dims = [2, 1, 1], flat = [IsObs obs_a, IsObs obs_a3]\<rparr>"
         and ?o1.0 = obs_a and ?o2.0 = obs_a3 and nm = "''A''" and a = 2 and b = 3]
    by (simp add: obs_a_def obs_a3_def)
  have "\<forall>p1 p2 n c1 c2. IsObs p1 \<in> set [IsObs obs_a, IsObs obs_a2] \<and>
      IsObs p2 \<in> set [IsObs obs_a, IsObs obs_a2] \<and> shape p1 n = Some c1 \<and> shape p2 n = Some c2
      \<longrightarrow> c1 = c2"
    by (auto simp: obs_a_def obs_a2_def split: if_splits)
  then show "snd (derived_array matmul_func product_jacobian no_kwargs
        (PyList \<lparr>dims = [2, 1, 1], flat = [IsObs obs_a, IsObs obs_a2]\<rparr>)) =
      propagate matmul_func product_jacobian no_kwargs [2, 1, 1] [obs_a, obs_a2] [''A'']"
    using ensemble_shape_mismatch
      [where data = "PyList \<lparr>dims = [2, 1, 1], flat = [IsObs obs_a, IsObs obs_a2]\<rparr>"
         and func = matmul_func and jac = product_jacobian and kw = no_kwargs]
    by (simp add: workaround_def first_name_shape_def new_names_def obs_a_def obs_a2_def)
qed

section \<open>What a call does to the collection of the caller\<close>

lemma promote_no_Num:
  "(\<forall>x. Num x \<notin> set es) \<Longrightarrow> promote fs es = Inr es"
proof (induction es)
  case (Cons e es)
  then show ?case by (cases e) auto
qed simp

lemma workaround_no_Num:
  "(\<forall>x. Num x \<notin> set es) \<Longrightarrow> workaround es = Inr r \<Longrightarrow> r = es"
  by (auto simp: workaround_def promote_no_Num split: sum.splits)

lemma workaround_elementwise:
  assumes "workaround es = Inr r"
  shows "\<exists>f. r = map f es \<and> (\<forall>ob. f (IsObs ob) = IsObs ob) \<and> f Other = Other"
proof (cases "first_name_shape es")
  case (Inl e)
  then show ?thesis using assms by (simp add: workaround_def)
next
  case (Inr fs)
  show ?thesis
  proof (cases fs)
    case None
    have "r = es"
    proof (cases "\<exists>x. Num x \<in> set es")
      case True
      then show ?thesis
        using assms Inr None by (auto simp: workaround_def promote_None_Num)
    next
      case False
      then show ?thesis
        using assms Inr None by (simp add: workaround_def promote_None_no_Num)
    qed
    then have "r = map (\<lambda>e. e) es" by simp
    then show ?thesis by blast
  next
    case (Some p)
    obtain nm n where p: "p = (nm, n)" by (cases p)
    have "r = map (\<lambda>e. case e of Num x \<Rightarrow> IsObs (constant_Obs x n nm) | _ \<Rightarrow> e) es"
      using assms Inr Some p by (simp add: workaround_def promote_Some)
    then show ?thesis
      by (intro exI [of _ "\<lambda>e. case e of Num x \<Rightarrow> IsObs (constant_Obs x n nm) | _ \<Rightarrow> e"]) simp
  qed
qed

text \<open>
  Claim C7, as the code has it. A collection passed as a Python list is as before after
  the call, and so is a numpy array that holds no plain number. In a numpy array the
  call changes entries only: the shape is kept, and every record and every other object
  stays, unchanged, where it was; what can change is a plain number, which the
  workaround replaces by a constant record. The records of the input are values that
  the function reads and never assigns to.
\<close>

theorem derived_array_frame:
  "fst (derived_array func jac kw (PyList a)) = PyList a
   \<and> (list_all (\<lambda>e. case e of Num x \<Rightarrow> False | _ \<Rightarrow> True) (flat a) \<longrightarrow>
        fst (derived_array func jac kw (NdArray a)) = NdArray a)
   \<and> (\<exists>f. fst (derived_array func jac kw (NdArray a)) = NdArray (a\<lparr>flat := map f (flat a)\<rparr>)
        \<and> (\<forall>ob. f (IsObs ob) = IsObs ob) \<and> f Other = Other)"
proof (intro conjI impI)
  show "fst (derived_array func jac kw (PyList a)) = PyList a"
    by (simp add: derived_array_def split: sum.splits)
next
  assume "list_all (\<lambda>e. case e of Num x \<Rightarrow> False | _ \<Rightarrow> True) (flat a)"
  then have "\<forall>x. Num x \<notin> set (flat a)"
    by (auto simp: list_all_iff)
  then have "workaround (flat a) = Inr r \<Longrightarrow> r = flat a" for r
    by (rule workaround_no_Num)
  then show "fst (derived_array func jac kw (NdArray a)) = NdArray a"
    by (auto simp: derived_array_def split: sum.splits)
next
  show "\<exists>f. fst (derived_array func jac kw (NdArray a)) = NdArray (a\<lparr>flat := map f (flat a)\<rparr>)
        \<and> (\<forall>ob. f (IsObs ob) = IsObs ob) \<and> f Other = Other"
  proof (cases "workaround (flat a)")
    case (Inl e)
    then have "fst (derived_array func jac kw (NdArray a)) = NdArray (a\<lparr>flat := map (\<lambda>e. e) (flat a)\<rparr>)"
      by (simp add: derived_array_def)
    then show ?thesis by blast
  next
    case (Inr r)
    then obtain f where "r = map f (flat a)" "\<forall>ob. f (IsObs ob) = IsObs ob" "f Other = Other"
      using workaround_elementwise by blast
    moreover have "fst (derived_array func jac kw (NdArray a)) = NdArray (a\<lparr>flat := r\<rparr>)"
      using Inr by (simp add: derived_array_def)
    ultimately show ?thesis by blast
  qed
qed

theorem derived_array_frame_witness:
  "fst (derived_array matmul_func product_jacobian no_kwargs
      (NdArray \<lparr>dims = [2, 1, 1], flat = [IsObs obs_a, IsObs obs_a2]\<rparr>)) =
    NdArray \<lparr>dims = [2, 1, 1], flat = [IsObs obs_a, IsObs obs_a2]\<rparr>"
  using derived_array_frame [of matmul_func product_jacobian no_kwargs
      "\<lparr>dims = [2, 1, 1], flat = [IsObs obs_a, IsObs obs_a2]\<rparr>"]
  by simp

text \<open>
  The claim as it is written fails for a numpy array that holds a plain number beside
  a record: after the call the array of the caller holds a constant record in the place
  of the number.
\<close>

theorem derived_array_replaces_number:
  "fst (derived_array matmul_func product_jacobian no_kwargs
      (NdArray \<lparr>dims = [2, 1, 1], flat = [IsObs obs_a, Num 2]\<rparr>)) =
    NdArray \<lparr>dims = [2, 1, 1], flat = [IsObs obs_a, IsObs (constant_Obs 2 2 ''A'')]\<rparr>
   \<and> fst (derived_array matmul_func product_jacobian no_kwargs
      (NdArray \<lparr>dims = [2, 1, 1], flat = [IsObs obs_a, Num 2]\<rparr>)) \<noteq>
    NdArray \<lparr>dims = [2, 1, 1], flat = [IsObs obs_a, Num 2]\<rparr>"
  by (simp add: derived_array_def workaround_def first_name_shape_def obs_a_def)

section \<open>The stages of a call that returns\<close>

lemma propagate_Inr:
  assumes "propagate func jac kw ds obs nms = Inr res"
  obtains v nv rvals d dex rs where
    "central_values ds obs = Inr v" "func v = Inr nv"
    "new_r_values func ds obs nms = Inr rvals" "derivative jac kw ds v nv = Inr d"
    "d_extracted ds obs nms = Inr dex"
    "final_result d (dims nv) dex rvals nms 0 (flat nv) = Inr rs"
    "res = \<lparr>dims = dims nv, flat = rs\<rparr>"
  using assms by (auto simp: propagate_def split: sum.splits)

lemma derived_array_Inr:
  assumes "snd (derived_array func jac kw data) = Inr res"
  obtains raveled obs where
    "workaround (flat (asarray data)) = Inr raveled" "records raveled = Inr obs"
    "propagate func jac kw (dims (asarray data)) obs (new_names obs) = Inr res"
  using assms
  by (auto simp: derived_array_def check_shapes_def split: sum.splits)

lemma result_entry_Inr:
  assumes "result_entry d nds dex rvals nms i x = Inr ob"
  shows "\<exists>samples means. new_deltas d (unravel_index nds i) dex = Inr samples \<and>
      new_means (unravel_index nds i) rvals = Inr means \<and>
      ob = (Obs_with_means samples nms means)\<lparr>obs_value := x\<rparr>"
  using assms by (auto simp: result_entry_def split: sum.splits)

lemma final_result_nth:
  "final_result d nds dex rvals nms k vals = Inr rs \<Longrightarrow>
     length rs = length vals \<and>
     (\<forall>i<length vals. result_entry d nds dex rvals nms (k + i) (vals ! i) = Inr (rs ! i))"
proof (induction vals arbitrary: k rs)
  case Nil
  then show ?case by simp
next
  case (Cons x vals)
  from Cons.prems obtain ob rs' where
    e: "result_entry d nds dex rvals nms k x = Inr ob"
    and r: "final_result d nds dex rvals nms (Suc k) vals = Inr rs'"
    and rs: "rs = ob # rs'"
    by (auto split: sum.splits)
  from Cons.IH [OF r] have
    ih: "length rs' = length vals"
      "\<forall>i<length vals. result_entry d nds dex rvals nms (Suc k + i) (vals ! i) = Inr (rs' ! i)"
    by auto
  show ?case
  proof (intro conjI allI impI)
    show "length rs = length (x # vals)"
      using ih rs by simp
    fix i assume "i < length (x # vals)"
    then show "result_entry d nds dex rvals nms (k + i) ((x # vals) ! i) = Inr (rs ! i)"
      using e ih rs by (cases i) auto
  qed
qed

lemma new_r_values_fst:
  "new_r_values func ds obs nms = Inr rvals \<Longrightarrow> map fst rvals = nms"
  by (induction nms arbitrary: rvals) (auto split: sum.splits)

lemma new_r_values_snd:
  "new_r_values func ds obs nms = Inr rvals \<Longrightarrow> (nm, r) \<in> set rvals \<Longrightarrow>
     func \<lparr>dims = ds, flat = map (mean_or_value nm) obs\<rparr> = Inr r"
  by (induction nms arbitrary: rvals) (auto split: sum.splits)

lemma new_means_nth:
  "new_means iv rvals = Inr means \<Longrightarrow>
     length means = length rvals \<and>
     (\<forall>j<length rvals. \<exists>a. getitem (dims (snd (rvals ! j))) (flat (snd (rvals ! j))) iv = Inr a
        \<and> scalar_item a = Inr (means ! j))"
proof (induction rvals arbitrary: means)
  case Nil
  then show ?case by simp
next
  case (Cons p rvals)
  obtain nm r where p: "p = (nm, r)" by (cases p)
  from Cons.prems p obtain a x ms where
    g: "getitem (dims r) (flat r) iv = Inr a" "scalar_item a = Inr x"
    and m: "new_means iv rvals = Inr ms" "means = x # ms"
    by (auto split: sum.splits)
  from Cons.IH [OF m(1)] have ih: "length ms = length rvals"
    "\<forall>j<length rvals. \<exists>a. getitem (dims (snd (rvals ! j))) (flat (snd (rvals ! j))) iv = Inr a
        \<and> scalar_item a = Inr (ms ! j)"
    by auto
  show ?case
  proof (intro conjI allI impI)
    show "length means = length (p # rvals)"
      using ih m by simp
    fix j assume "j < length (p # rvals)"
    then show "\<exists>a. getitem (dims (snd ((p # rvals) ! j))) (flat (snd ((p # rvals) ! j))) iv = Inr a
        \<and> scalar_item a = Inr (means ! j)"
      using g ih m p by (cases j) auto
  qed
qed

lemma distinct_new_names:
  "distinct (new_names obs)"
  by (simp add: new_names_def)

text \<open>A constant record contributes its value to the means of every ensemble.\<close>

lemma mean_or_value_constant_Obs:
  "mean_or_value nm (constant_Obs x n nm0) = x"
  by (simp add: mean_or_value_def constant_Obs_def)

lemma workaround_means:
  assumes "workaround es = Inr (map IsObs obs)"
  shows "map (mean_or_value nm) obs = map (entry_mean nm) es"
proof -
  define g where "g = (\<lambda>e. case e of IsObs ob \<Rightarrow> mean_or_value nm ob | _ \<Rightarrow> 0)"
  have obs: "map (mean_or_value nm) obs = map g (map IsObs obs)"
    by (simp add: g_def)
  have es: "map g (map IsObs obs) = map (entry_mean nm) es"
  proof (cases "first_name_shape es")
    case (Inl e)
    then show ?thesis using assms by (simp add: workaround_def)
  next
    case (Inr fs)
    show ?thesis
    proof (cases fs)
      case None
      have "map IsObs obs = es"
      proof (cases "\<exists>x. Num x \<in> set es")
        case True
        then show ?thesis
          using assms Inr None by (auto simp: workaround_def promote_None_Num)
      next
        case False
        then show ?thesis
          using assms Inr None by (simp add: workaround_def promote_None_no_Num)
      qed
      then have "es = map IsObs obs" by simp
      then show ?thesis
        by (simp add: g_def entry_mean_def mean_or_value_def)
    next
      case (Some p)
      obtain nm0 n where p: "p = (nm0, n)" by (cases p)
      have r: "map IsObs obs =
          map (\<lambda>e. case e of Num x \<Rightarrow> IsObs (constant_Obs x n nm0) | _ \<Rightarrow> e) es"
        using assms Inr Some p by (simp add: workaround_def promote_Some)
      have "g (case e of Num x \<Rightarrow> IsObs (constant_Obs x n nm0) | _ \<Rightarrow> e) = entry_mean nm e" for e
        by (cases e) (simp_all add: g_def entry_mean_def mean_or_value_constant_Obs,
            simp add: mean_or_value_def)
      then show ?thesis
        unfolding r by simp
    qed
  qed
  show ?thesis
    by (rule trans [OF obs es])
qed

lemma workaround_names:
  assumes "workaround es = Inr (map IsObs obs)"
    and "nm \<in> set (concat (map entry_names es))"
  shows "nm \<in> set (new_names obs)"
proof -
  from assms(2) obtain e where e: "e \<in> set es" "nm \<in> set (entry_names e)"
    by auto
  then obtain ob where ob: "e = IsObs ob" "nm \<in> set (names ob)"
    by (cases e) (auto simp: entry_names_def)
  then have "IsObs ob \<in> set (map IsObs obs)"
    using assms(1) e by (auto dest: workaround_keeps_records)
  then have "ob \<in> set obs" by auto
  then show ?thesis
    using ob by (auto simp: set_new_names)
qed

lemma r_values_Obs_with_means:
  "r_values ((Obs_with_means samples nms means)\<lparr>obs_value := x\<rparr>) = map_of (zip nms means)"
  by (simp add: Obs_with_means_def)

text \<open>
  Claim C2. In a call that returns, take an ensemble name \<open>nm\<close> of the union of the
  names of the inputs and the output record at position \<open>i\<close>, that is, at the index
  tuple \<^verbatim>\<open>i_val\<close> of the \<open>i\<close>-th element. Its mean for \<open>nm\<close> is the element at \<^verbatim>\<open>i_val\<close> of
  \<^verbatim>\<open>func\<close> evaluated on the array, shaped as the data, in which every input contributes
  its own mean for \<open>nm\<close> if it has one and its central value otherwise.
\<close>

theorem per_ensemble_means:
  assumes "snd (derived_array func jac kw data) = Inr res"
    and "nm \<in> set (concat (map entry_names (flat (asarray data))))"
    and "i < length (flat res)"
  shows "\<exists>r a m.
      func \<lparr>dims = dims (asarray data),
            flat = map (entry_mean nm) (flat (asarray data))\<rparr> = Inr r
      \<and> getitem (dims r) (flat r) (unravel_index (dims res) i) = Inr a
      \<and> scalar_item a = Inr m
      \<and> r_values (flat res ! i) nm = Some m"
proof -
  let ?es = "flat (asarray data)" and ?ds = "dims (asarray data)"
  from assms(1) obtain raveled obs where
    w: "workaround ?es = Inr raveled" and rec: "records raveled = Inr obs"
    and p: "propagate func jac kw ?ds obs (new_names obs) = Inr res"
    by (rule derived_array_Inr)
  from rec have raveled: "raveled = map IsObs obs"
    by (simp add: records_Inr_iff)
  let ?nms = "new_names obs"
  from p obtain v nv rvals d dex rs where
    "central_values ?ds obs = Inr v" "func v = Inr nv"
    and rv: "new_r_values func ?ds obs ?nms = Inr rvals"
    and "derivative jac kw ?ds v nv = Inr d"
    and "d_extracted ?ds obs ?nms = Inr dex"
    and fin: "final_result d (dims nv) dex rvals ?nms 0 (flat nv) = Inr rs"
    and res: "res = \<lparr>dims = dims nv, flat = rs\<rparr>"
    by (rule propagate_Inr)
  have i: "i < length (flat nv)"
    using final_result_nth [OF fin] assms(3) res by simp
  then have "result_entry d (dims nv) dex rvals ?nms i (flat nv ! i) = Inr (rs ! i)"
    using final_result_nth [OF fin] by auto
  then obtain samples means where
    means: "new_means (unravel_index (dims nv) i) rvals = Inr means"
    and ob: "rs ! i = (Obs_with_means samples ?nms means)\<lparr>obs_value := flat nv ! i\<rparr>"
    by (auto dest: result_entry_Inr)
  have nm: "nm \<in> set ?nms"
    using w assms(2) unfolding raveled by (rule workaround_names)
  then obtain j where j: "j < length ?nms" "?nms ! j = nm"
    by (auto simp: in_set_conv_nth)
  have fst: "map fst rvals = ?nms"
    using rv by (rule new_r_values_fst)
  then have len: "length rvals = length ?nms"
    by (metis length_map)
  obtain r where r: "rvals ! j = (nm, r)"
    using fst j len by (metis nth_map prod.collapse)
  then have "(nm, r) \<in> set rvals"
    using j len by (metis nth_mem)
  then have "func \<lparr>dims = ?ds, flat = map (mean_or_value nm) obs\<rparr> = Inr r"
    using rv by (rule new_r_values_snd [rotated])
  then have f: "func \<lparr>dims = ?ds, flat = map (entry_mean nm) ?es\<rparr> = Inr r"
    using workaround_means [of ?es obs nm] w raveled by simp
  from new_means_nth [OF means] j len r obtain a where
    a: "getitem (dims r) (flat r) (unravel_index (dims nv) i) = Inr a"
      "scalar_item a = Inr (means ! j)"
    and lm: "length means = length ?nms"
    by fastforce
  have "map_of (zip ?nms means) (?nms ! j) = Some (means ! j)"
    using lm j distinct_new_names by (intro map_of_zip_nth) auto
  then have "r_values (flat res ! i) nm = Some (means ! j)"
    using ob res j by (simp add: r_values_Obs_with_means)
  with f a res show ?thesis
    by auto
qed

theorem per_ensemble_means_witness:
  "\<exists>r a m.
      matmul_func \<lparr>dims = [2, 1, 1], flat = map (entry_mean ''A'') [IsObs obs_a, Num 2]\<rparr> = Inr r
      \<and> getitem (dims r) (flat r) (unravel_index [1, 1] 0) = Inr a
      \<and> scalar_item a = Inr m
      \<and> r_values \<lparr>names = [''A''], shape = [''A'' \<mapsto> 2], deltas = [''A'' \<mapsto> [2, -2]],
                   r_values = [''A'' \<mapsto> 6], obs_value = 6\<rparr> ''A'' = Some m"
proof -
  have call: "snd (derived_array matmul_func product_jacobian no_kwargs
        (PyList \<lparr>dims = [2, 1, 1], flat = [IsObs obs_a, Num 2]\<rparr>)) =
      Inr \<lparr>dims = [1, 1],
           flat = [\<lparr>names = [''A''], shape = [''A'' \<mapsto> 2], deltas = [''A'' \<mapsto> [2, -2]],
                    r_values = [''A'' \<mapsto> 6], obs_value = 6\<rparr>]\<rparr>"
    by (simp add: derived_array_def workaround_def first_name_shape_def obs_a_def
        constant_Obs_def check_shapes_def new_names_def propagate_def central_values_def
        matmul_func_def mean_or_value_def derivative_def no_kwargs_def product_jacobian_def
        extract_block_def result_entry_def new_delta_def tensordot_def iadd_def
        scalar_item_def Obs_with_means_def eval_nat_numeral)
  show ?thesis
    using per_ensemble_means [OF call, of "''A''" 0]
    by (simp add: entry_names_def obs_a_def)
qed

section \<open>The exceptions of the propagation\<close>




























section \<open>Central values through the engine for lists and the arithmetic of records\<close>

lemma sequence_Inr:
  "sequence xs = Inr vs \<Longrightarrow> length vs = length xs \<and> (\<forall>i<length xs. xs ! i = Inr (vs ! i))"
proof (induction xs arbitrary: vs)
  case Nil
  then show ?case by simp
next
  case (Cons x xs)
  from Cons.prems obtain v vs' where x: "x = Inr v" and s: "sequence xs = Inr vs'"
    and vs: "vs = v # vs'"
    by (auto split: sum.splits)
  from Cons.IH [OF s] have ih: "length vs' = length xs" "\<forall>i<length xs. xs ! i = Inr (vs' ! i)"
    by auto
  show ?case
  proof (intro conjI allI impI)
    show "length vs = length (x # xs)"
      using ih vs by simp
    fix i assume "i < length (x # xs)"
    then show "(x # xs) ! i = Inr (vs ! i)"
      using x ih vs by (cases i) auto
  qed
qed

lemma sequence_map_Inr:
  assumes "sequence (map f xs) = Inr vs"
  shows "length vs = length xs" and "i < length xs \<Longrightarrow> f (xs ! i) = Inr (vs ! i)"
  using sequence_Inr [OF assms] by auto

lemma operand_value:
  "operand e = Inr ob \<Longrightarrow> obs_value ob = entry_value e"
  by (cases e) (auto simp: operand_def entry_value_def)

lemma operands_values:
  assumes "sequence (map operand es) = Inr obs"
  shows "map obs_value obs = map entry_value es"
proof (rule nth_equalityI)
  show "length (map obs_value obs) = length (map entry_value es)"
    using sequence_map_Inr(1) [OF assms] by simp
  fix i assume "i < length (map obs_value obs)"
  then have i: "i < length es"
    using sequence_map_Inr(1) [OF assms] by simp
  then have "operand (es ! i) = Inr (obs ! i)"
    using sequence_map_Inr(2) [OF assms] by simp
  then show "map obs_value obs ! i = map entry_value es ! i"
    using i sequence_map_Inr(1) [OF assms] by (simp add: operand_value)
qed

lemma obs_value_derived_record:
  "obs_value (derived_record J ns rvals nms obs i x) = x"
  by (simp add: derived_record_def)

text \<open>The central values of the output of the engine are \<open>f\<close> on those of the inputs.\<close>

lemma derived_observable_values:
  assumes "derived_observable func jac data = Inr res"
  shows "\<exists>nv. func \<lparr>dims = dims data, flat = map entry_value (flat data)\<rparr> = Inr nv \<and>
      dims res = dims nv \<and> map obs_value (flat res) = flat nv"
proof -
  from assms obtain obs where obs: "sequence (map operand (flat data)) = Inr obs"
    by (auto simp: derived_observable_def split: sum.splits)
  have v: "map obs_value obs = map entry_value (flat data)"
    using obs by (rule operands_values)
  from assms obs obtain nv J ns rvals where
    nv: "func \<lparr>dims = dims data, flat = map obs_value obs\<rparr> = Inr nv"
    and res: "res = \<lparr>dims = dims nv,
        flat = map (\<lambda>i. derived_record J ns rvals (new_names obs) obs i (flat nv ! i))
                   [0..<length (flat nv)]\<rparr>"
    by (auto simp: derived_observable_def split: sum.splits if_splits)
  have "map obs_value (flat res) = map (\<lambda>i. flat nv ! i) [0..<length (flat nv)]"
    by (simp add: res obs_value_derived_record)
  then have "map obs_value (flat res) = flat nv"
    by (simp add: map_nth)
  then show ?thesis
    using nv v res by simp
qed

lemma single_Inr:
  "single r = Inr ob \<Longrightarrow> \<exists>a. r = Inr a \<and> flat a = [ob]"
  by (auto simp: single_def split: sum.splits list.splits if_splits)

lemma obs_times_value:
  assumes "obs_times ob c = Inr r"
  shows "obs_value r = obs_value ob * c"
proof -
  from assms obtain a where
    a: "derived_observable
       (\<lambda>x. case flat x of [u] \<Rightarrow> Inr \<lparr>dims = [], flat = [u * c]\<rparr> | _ \<Rightarrow> Inl IndexError)
       (\<lambda>x. Inr \<lparr>dims = [1], flat = [c]\<rparr>)
       \<lparr>dims = [1], flat = [IsObs ob]\<rparr> = Inr a" and f: "flat a = [r]"
    unfolding obs_times_def by (auto dest: single_Inr)
  from derived_observable_values [OF a] f show ?thesis
    by (auto simp: entry_value_def)
qed

lemma obs_plus_value:
  assumes "obs_plus a b = Inr r"
  shows "obs_value r = obs_value a + obs_value b"
proof -
  from assms obtain y where
    y: "derived_observable
       (\<lambda>x. case flat x of [u, v] \<Rightarrow> Inr \<lparr>dims = [], flat = [u + v]\<rparr> | _ \<Rightarrow> Inl IndexError)
       (\<lambda>x. Inr \<lparr>dims = [2], flat = [1, 1]\<rparr>)
       \<lparr>dims = [2], flat = [IsObs a, IsObs b]\<rparr> = Inr y" and f: "flat y = [r]"
    unfolding obs_plus_def by (auto dest: single_Inr)
  from derived_observable_values [OF y] f show ?thesis
    by (auto simp: entry_value_def)
qed

lemma sum_records_value:
  "sum_records acc ps = Inr r \<Longrightarrow> obs_value r = obs_value acc + sum_list (map obs_value ps)"
proof (induction ps arbitrary: acc)
  case (Cons p ps)
  from Cons.prems obtain s where s: "obs_plus acc p = Inr s" "sum_records s ps = Inr r"
    by (auto split: sum.splits)
  then show ?case
    using Cons.IH [OF s(2)] obs_plus_value [OF s(1)] by simp
qed simp

lemma times_entry_value:
  "times_entry 1 e = Inr e' \<Longrightarrow> entry_value e' = entry_value e"
  by (cases e) (auto simp: times_entry_def entry_value_def split: sum.splits
      dest: obs_times_value)

lemma raveled_obs_values:
  assumes "raveled_obs obs = Inr raveled"
  shows "map entry_value raveled = map entry_value (flat (as_ndarray obs))"
proof (cases obs)
  case (AsArray a)
  then have s: "sequence (map (times_entry 1) (flat a)) = Inr raveled"
    using assms by (simp add: raveled_obs_def)
  have "map entry_value raveled = map entry_value (flat a)"
  proof (rule nth_equalityI)
    show "length (map entry_value raveled) = length (map entry_value (flat a))"
      using sequence_map_Inr(1) [OF s] by simp
    fix i assume "i < length (map entry_value raveled)"
    then have i: "i < length (flat a)"
      using sequence_map_Inr(1) [OF s] by simp
    then have "times_entry 1 (flat a ! i) = Inr (raveled ! i)"
      using sequence_map_Inr(2) [OF s] by simp
    then show "map entry_value raveled ! i = map entry_value (flat a) ! i"
      using i sequence_map_Inr(1) [OF s] by (simp add: times_entry_value)
  qed
  then show ?thesis
    using AsArray by simp
next
  case (AsList l)
  then show ?thesis
    using assms by (simp add: raveled_obs_def)
qed

text \<open>The product with the identity keeps the central values.\<close>

lemma sum_list_identity_column:
  assumes "k < n"
  shows "sum_list (map (\<lambda>j. f j * (if j = k then 1 else 0 :: real)) [0..<n]) = f k"
proof -
  have "sum_list (map (\<lambda>j. f j * (if j = k then 1 else 0)) [0..<n]) =
      (\<Sum>j = 0..<n. f j * (if j = k then 1 else 0))"
    by (simp add: interv_sum_list_conv_sum_set_nat)
  also have "\<dots> = (\<Sum>j = 0..<n. if j = k then f j else 0)"
    by (intro sum.cong) auto
  also have "\<dots> = f k"
    using assms by simp
  finally show ?thesis .
qed

lemma dot_column_value:
  assumes "dot_column row (identity_column n k) = Inr r" and "length row = n" and "k < n"
  shows "obs_value r = obs_value (row ! k)"
proof -
  let ?col = "identity_column n k"
  from assms(1) obtain p ps where
    s0: "sequence (map2 obs_times row ?col) = Inr (p # ps)" and r: "sum_records p ps = Inr r"
    by (auto simp: dot_column_def split: sum.splits list.splits)
  define prods where "prods = p # ps"
  have s: "sequence (map2 obs_times row ?col) = Inr prods"
    using s0 by (simp add: prods_def)
  have len: "length prods = n"
    using sequence_Inr [OF s] assms(2) by (simp add: identity_column_def)
  have val: "obs_value (prods ! j) = obs_value (row ! j) * (if j = k then 1 else 0)"
    if "j < n" for j
  proof -
    have "map2 obs_times row ?col ! j = Inr (prods ! j)"
      using sequence_Inr [OF s] that assms(2) by (simp add: identity_column_def)
    then have "obs_times (row ! j) (if j = k then 1 else 0) = Inr (prods ! j)"
      using that assms(2) by (simp add: identity_column_def)
    then show ?thesis
      by (rule obs_times_value)
  qed
  have m: "map obs_value prods =
      map (\<lambda>j. obs_value (row ! j) * (if j = k then 1 else 0)) [0..<n]"
  proof (rule nth_equalityI)
    show "length (map obs_value prods) =
        length (map (\<lambda>j. obs_value (row ! j) * (if j = k then 1 else 0)) [0..<n])"
      using len by simp
    fix i assume "i < length (map obs_value prods)"
    then have i: "i < n" using len by simp
    then have "map obs_value prods ! i = obs_value (prods ! i)"
      using len by simp
    also have "\<dots> = obs_value (row ! i) * (if i = k then 1 else 0)"
      using i by (rule val)
    also have "\<dots> = map (\<lambda>j. obs_value (row ! j) * (if j = k then 1 else 0)) [0..<n] ! i"
      using i by simp
    finally show "map obs_value prods ! i =
        map (\<lambda>j. obs_value (row ! j) * (if j = k then 1 else 0)) [0..<n] ! i" .
  qed
  have "obs_value r = sum_list (map obs_value prods)"
    using sum_records_value [OF r] by (simp add: prods_def)
  also have "\<dots> = obs_value (row ! k)"
    unfolding m using assms(3) by (rule sum_list_identity_column)
  finally show ?thesis .
qed

lemma times_identity_values:
  assumes "times_identity n row = Inr r" and "length row = n"
  shows "length r = n" and "k < n \<Longrightarrow> obs_value (r ! k) = obs_value (row ! k)"
proof -
  have s: "sequence (map (\<lambda>k. dot_column row (identity_column n k)) [0..<n]) = Inr r"
    using assms(1) by (simp add: times_identity_def)
  show "length r = n"
    using sequence_map_Inr(1) [OF s] by simp
  assume k: "k < n"
  then have "dot_column row (identity_column n ([0..<n] ! k)) = Inr (r ! k)"
    using sequence_map_Inr(2) [OF s, of k] by simp
  then have "dot_column row (identity_column n k) = Inr (r ! k)"
    using k by simp
  then show "obs_value (r ! k) = obs_value (row ! k)"
    using assms(2) k by (rule dot_column_value)
qed

section \<open>The eigenvalues that \<^verbatim>\<open>eig\<close> returns\<close>

lemma eig_lambda_length:
  "eig_lambda np_eig x = Inr nv \<Longrightarrow> \<exists>w. np_eig x = Inr w \<and> flat nv = map Re w"
  by (auto simp: eig_lambda_def split: sum.splits)

lemma eig_mat_matrix:
  assumes "eig_mat np_eig i x = Inr nv"
  shows "\<exists>w. np_eig \<lparr>dims = [nat \<lfloor>sqrt (real (length (flat x)))\<rfloor>,
                              nat \<lfloor>sqrt (real (length (flat x)))\<rfloor>], flat = flat x\<rparr> = Inr w
      \<and> i < length w \<and> flat nv = [Re (w ! i)]"
  using assms by (auto simp: eig_mat_def mat_of_def split: sum.splits if_splits)

text \<open>
  Claim C9. Let \<open>m\<close> be the matrix of the central values of the input, with the shape of
  the input in the automatic path and as the square matrix that \<^verbatim>\<open>_mat\<close> builds in the
  path of numerical differentiation. Whatever \<^verbatim>\<open>np.linalg.eig\<close> answers: when \<^verbatim>\<open>eig\<close>
  returns, it returns one record for every eigenvalue \<open>w\<close> that numpy computes for \<open>m\<close> in
  the automatic path, and one record for every row of \<open>m\<close> in the numerical path, none
  of them beyond the eigenvalues of \<open>m\<close>: one record for every eigenvalue there too
  when numpy computes as many eigenvalues as \<open>m\<close> has rows. The central value of the
  \<open>i\<close>-th record is the real part of the \<open>i\<close>-th eigenvalue \<open>w ! i\<close>. The imaginary part is
  in no record: when it is not zero, the value returned is not the eigenvalue.
\<close>

theorem eig_returns_real_parts:
  assumes "eig np_eig jac num_jac kw obs = Inr res"
  shows "\<exists>m. flat m = map entry_value (flat (as_ndarray obs))
      \<and> dims m = (if num_grad kw
                   then [nat \<lfloor>sqrt (real (length (flat (as_ndarray obs))))\<rfloor>,
                         nat \<lfloor>sqrt (real (length (flat (as_ndarray obs))))\<rfloor>]
                   else dims (as_ndarray obs))
      \<and> (num_grad kw \<longrightarrow>
            length (flat res) = nat \<lfloor>sqrt (real (length (flat (as_ndarray obs))))\<rfloor>)
      \<and> (flat res \<noteq> [] \<or> \<not> num_grad kw \<longrightarrow>
            (\<exists>w. np_eig m = Inr w \<and> length (flat res) \<le> length w
               \<and> ((num_grad kw \<longrightarrow>
                      length w = nat \<lfloor>sqrt (real (length (flat (as_ndarray obs))))\<rfloor>)
                    \<longrightarrow> length (flat res) = length w)
               \<and> (\<forall>i<length (flat res).
                     obs_value (flat res ! i) = Re (w ! i)
                     \<and> (Im (w ! i) \<noteq> 0 \<longrightarrow>
                          complex_of_real (obs_value (flat res ! i)) \<noteq> w ! i))))"
proof (cases "num_grad kw")
  case False
  then have d: "derived_observable (eig_lambda np_eig) jac (as_ndarray obs) = Inr res"
    using assms(1) by (simp add: eig_def)
  let ?m = "\<lparr>dims = dims (as_ndarray obs),
      flat = map entry_value (flat (as_ndarray obs))\<rparr>"
  from derived_observable_values [OF d] obtain nv where
    nv: "eig_lambda np_eig ?m = Inr nv" and v: "map obs_value (flat res) = flat nv"
    by blast
  from eig_lambda_length [OF nv] obtain w where w: "np_eig ?m = Inr w" "flat nv = map Re w"
    by blast
  have len: "length (flat res) = length w"
    using v w(2) by (metis length_map)
  have vals: "obs_value (flat res ! i) = Re (w ! i)" if "i < length (flat res)" for i
  proof -
    have "obs_value (flat res ! i) = map obs_value (flat res) ! i"
      using that by simp
    also have "\<dots> = Re (w ! i)"
      using v w(2) that len by simp
    finally show ?thesis .
  qed
  have "\<forall>i<length (flat res). obs_value (flat res ! i) = Re (w ! i)
      \<and> (Im (w ! i) \<noteq> 0 \<longrightarrow> complex_of_real (obs_value (flat res ! i)) \<noteq> w ! i)"
    using vals by (metis Im_complex_of_real)
  then show ?thesis
    using False w(1) len by (intro exI [of _ ?m]) auto
next
  case True
  let ?es = "flat (as_ndarray obs)"
  let ?n = "nat \<lfloor>sqrt (real (length ?es))\<rfloor>"
  let ?m = "\<lparr>dims = [?n, ?n], flat = map entry_value ?es\<rparr>"
  from True have n: "num_diff_eig np_eig num_jac obs = Inr res"
    using assms(1) by (simp add: eig_def)
  then obtain raveled res_vec r where
    rav: "raveled_obs obs = Inr raveled"
    and s: "sequence
        (map (\<lambda>i. single (derived_observable (eig_mat np_eig i) (num_jac i)
                            \<lparr>dims = [length raveled], flat = raveled\<rparr>))
             [0..<nat \<lfloor>sqrt (real (length raveled))\<rfloor>]) = Inr res_vec"
    and t: "times_identity (nat \<lfloor>sqrt (real (length raveled))\<rfloor>) res_vec = Inr r"
    and res: "res = \<lparr>dims = [nat \<lfloor>sqrt (real (length raveled))\<rfloor>], flat = r\<rparr>"
    by (auto simp: num_diff_eig_def split: sum.splits)
  have vs: "map entry_value raveled = map entry_value ?es"
    using rav by (rule raveled_obs_values)
  then have lens: "length raveled = length ?es"
    by (metis length_map)
  note s = s [unfolded lens] and t = t [unfolded lens] and res = res [unfolded lens]
  have lv: "length res_vec = ?n"
    using sequence_map_Inr(1) [OF s] by simp
  have lr: "length r = ?n"
    using t lv by (rule times_identity_values(1))
  have entry: "\<exists>w. np_eig ?m = Inr w \<and> i < length w \<and> obs_value (r ! i) = Re (w ! i)"
    if i: "i < ?n" for i
  proof -
    have val: "obs_value (r ! i) = obs_value (res_vec ! i)"
      using t lv i by (rule times_identity_values(2))
    have "single (derived_observable (eig_mat np_eig ([0..<?n] ! i)) (num_jac ([0..<?n] ! i))
        \<lparr>dims = [length raveled], flat = raveled\<rparr>) = Inr (res_vec ! i)"
      using sequence_map_Inr(2) [OF s, of i] i by (simp add: lens)
    then have "single (derived_observable (eig_mat np_eig i) (num_jac i)
        \<lparr>dims = [length raveled], flat = raveled\<rparr>) = Inr (res_vec ! i)"
      using i by simp
    then obtain a where
      a: "derived_observable (eig_mat np_eig i) (num_jac i)
        \<lparr>dims = [length raveled], flat = raveled\<rparr> = Inr a" and fa: "flat a = [res_vec ! i]"
      by (auto dest: single_Inr)
    from derived_observable_values [OF a] obtain nv where
      nv: "eig_mat np_eig i \<lparr>dims = [length raveled], flat = map entry_value raveled\<rparr> = Inr nv"
      and v: "map obs_value (flat a) = flat nv"
      by auto
    from eig_mat_matrix [OF nv] obtain w where
      w: "np_eig ?m = Inr w" "i < length w" "flat nv = [Re (w ! i)]"
      by (auto simp: vs lens [symmetric])
    have "obs_value (res_vec ! i) = Re (w ! i)"
      using v fa w(3) by simp
    then show ?thesis
      using val w by auto
  qed
  have "\<exists>w. np_eig ?m = Inr w \<and> length (flat res) \<le> length w
      \<and> (\<forall>i<length (flat res). obs_value (flat res ! i) = Re (w ! i)
            \<and> (Im (w ! i) \<noteq> 0 \<longrightarrow> complex_of_real (obs_value (flat res ! i)) \<noteq> w ! i))"
    if ne: "flat res \<noteq> []"
  proof -
    from ne res have "r \<noteq> []" by simp
    then have "0 < length r" by simp
    then have "0 < ?n" unfolding lr .
    from entry [OF this] obtain w where w: "np_eig ?m = Inr w" by blast
    have each: "i < length w \<and> obs_value (r ! i) = Re (w ! i)" if "i < ?n" for i
      using entry [OF that] w by auto
    have "length (flat res) \<le> length w"
    proof (rule ccontr)
      assume "\<not> length (flat res) \<le> length w"
      then have "length w < ?n" using res lr by simp
      from each [OF this] show False by simp
    qed
    moreover have "\<forall>i<length (flat res). obs_value (flat res ! i) = Re (w ! i)
            \<and> (Im (w ! i) \<noteq> 0 \<longrightarrow> complex_of_real (obs_value (flat res ! i)) \<noteq> w ! i)"
      using each res lr by (metis Im_complex_of_real ndarray.select_convs(2))
    ultimately show ?thesis
      using w by blast
  qed
  then show ?thesis
    using True res lr by (intro exI [of _ ?m]) auto
qed

theorem eig_returns_real_parts_witness:
  "eig eig_2x2 (\<lambda>x. Inr \<lparr>dims = [2, 2, 2], flat = [1 / 2, 0, 0, 1 / 2, 1 / 2, 0, 0, 1 / 2]\<rparr>)
      (\<lambda>i x. Inl ValueError) no_kwargs (AsArray rotation) =
      Inr \<lparr>dims = [2], flat = [obs_on_a 0, obs_on_a 0]\<rparr>
   \<and> eig eig_2x2 (\<lambda>x. Inl ValueError) (\<lambda>i x. Inr \<lparr>dims = [4], flat = [1 / 2, 0, 0, 1 / 2]\<rparr>)
      \<lparr>man_grad = None, num_grad = True\<rparr> (AsArray rotation) =
      Inr \<lparr>dims = [2], flat = [obs_on_a 0, obs_on_a 0]\<rparr>
   \<and> eig_2x2 \<lparr>dims = [2, 2], flat = map entry_value (flat rotation)\<rparr> = Inr [\<i>, - \<i>]
   \<and> length [obs_on_a 0, obs_on_a 0] = length [\<i>, - \<i>]
   \<and> length [obs_on_a 0, obs_on_a 0] = nat \<lfloor>sqrt (real (length (flat rotation)))\<rfloor>
   \<and> obs_value ([obs_on_a 0, obs_on_a 0] ! 0) = Re \<i>
   \<and> complex_of_real (obs_value ([obs_on_a 0, obs_on_a 0] ! 0)) \<noteq> \<i>
   \<and> obs_value ([obs_on_a 0, obs_on_a 0] ! 1) = Re (- \<i>)
   \<and> complex_of_real (obs_value ([obs_on_a 0, obs_on_a 0] ! 1)) \<noteq> - \<i>"
proof -
  let ?res = "\<lparr>dims = [2], flat = [obs_on_a 0, obs_on_a 0]\<rparr>"
  let ?m = "\<lparr>dims = [2, 2], flat = map entry_value (flat rotation)\<rparr>"
  have w: "eig_2x2 ?m = Inr [\<i>, - \<i>]"
    by (simp add: eig_2x2_def rotation_def entry_value_def obs_on_a_def)
  have automatic: "eig eig_2x2
      (\<lambda>x. Inr \<lparr>dims = [2, 2, 2], flat = [1 / 2, 0, 0, 1 / 2, 1 / 2, 0, 0, 1 / 2]\<rparr>)
      (\<lambda>i x. Inl ValueError) no_kwargs (AsArray rotation) = Inr ?res"
    by (simp add: eig_def no_kwargs_def derived_observable_def rotation_def operand_def
        obs_on_a_def new_names_def eig_lambda_def eig_2x2_def mean_or_value_def
        derived_record_def Obs_with_means_def ensemble_count_def deltas_or_zero_def
        eval_nat_numeral)
  have numerical: "eig eig_2x2 (\<lambda>x. Inl ValueError)
      (\<lambda>i x. Inr \<lparr>dims = [4], flat = [1 / 2, 0, 0, 1 / 2]\<rparr>)
      \<lparr>man_grad = None, num_grad = True\<rparr> (AsArray rotation) = Inr ?res"
    by (simp add: eig_def num_diff_eig_def raveled_obs_def times_entry_def obs_times_def
        obs_plus_def single_def times_identity_def dot_column_def identity_column_def
        eig_mat_def mat_of_def derived_observable_def rotation_def operand_def obs_on_a_def
        new_names_def eig_2x2_def mean_or_value_def derived_record_def Obs_with_means_def
        ensemble_count_def deltas_or_zero_def eval_nat_numeral upt_rec)
  from eig_returns_real_parts [OF automatic] obtain m where
    m: "flat m = map entry_value (flat (as_ndarray (AsArray rotation)))"
      "dims m = dims (as_ndarray (AsArray rotation))"
    and a: "\<exists>w. eig_2x2 m = Inr w \<and> length (flat ?res) = length w
        \<and> (\<forall>i<length (flat ?res). obs_value (flat ?res ! i) = Re (w ! i)
              \<and> (Im (w ! i) \<noteq> 0 \<longrightarrow> complex_of_real (obs_value (flat ?res ! i)) \<noteq> w ! i))"
    by (auto simp: no_kwargs_def)
  from m have "m = ?m"
    by (cases m) (simp add: rotation_def)
  with a w have len: "length (flat ?res) = length [\<i>, - \<i>]"
    and each: "\<forall>i<length (flat ?res). obs_value (flat ?res ! i) = Re ([\<i>, - \<i>] ! i)
        \<and> (Im ([\<i>, - \<i>] ! i) \<noteq> 0 \<longrightarrow>
             complex_of_real (obs_value (flat ?res ! i)) \<noteq> [\<i>, - \<i>] ! i)"
    by auto
  from each [rule_format, of 0] each [rule_format, of 1]
  have vals: "obs_value ([obs_on_a 0, obs_on_a 0] ! 0) = Re \<i>"
    "complex_of_real (obs_value ([obs_on_a 0, obs_on_a 0] ! 0)) \<noteq> \<i>"
    "obs_value ([obs_on_a 0, obs_on_a 0] ! 1) = Re (- \<i>)"
    "complex_of_real (obs_value ([obs_on_a 0, obs_on_a 0] ! 1)) \<noteq> - \<i>"
    by simp_all
  from eig_returns_real_parts [OF numerical]
  have "length (flat ?res) = nat \<lfloor>sqrt (real (length (flat (as_ndarray (AsArray rotation)))))\<rfloor>"
    by auto
  then have n: "length [obs_on_a 0, obs_on_a 0] = nat \<lfloor>sqrt (real (length (flat rotation)))\<rfloor>"
    by simp
  from automatic numerical w len n vals show ?thesis
    by simp
qed

section \<open>Central values through \<^verbatim>\<open>derived_array\<close>\<close>



section \<open>Lists in pieces, and the block matrix\<close>



















section \<open>Evaluation on numerals\<close>




section \<open>The block matrix in both modes of differentiation\<close>

























section \<open>Complex matrices through the real block matrix\<close>




section \<open>The gradient rule of the eigenvalue problem\<close>







































































end
